theory Spec2Isabelle
  imports Complex_Main "HOL-Library.Word"
begin

section \<open>Numeric model\<close>

text \<open>
  The plugin computes in C \<^verbatim>\<open>float\<close>. This development models a \<^verbatim>\<open>float\<close> as a
  real number: every arithmetic operation is the exact one, \<^verbatim>\<open>logf\<close>, \<^verbatim>\<open>expf\<close>,
  \<^verbatim>\<open>sinf\<close> and \<^verbatim>\<open>sqrtf\<close> are \<open>ln\<close>, \<open>exp\<close>, \<open>sin\<close> and \<open>sqrt\<close>, and there is no
  rounding, infinity or NaN. A C \<^verbatim>\<open>int\<close> is an unbounded integer (the conversions
  that would overflow it are undefined in C), an \<^verbatim>\<open>int16_t\<close> sample is an integer
  that the theorems show to stay within 16 bits, and the \<^verbatim>\<open>uint32_t\<close> noise seed is a
  32-bit word, whose arithmetic wraps.
\<close>

definition SAMPLE_RATE :: real where
  "SAMPLE_RATE = 44100"

definition MAX_BANDS :: nat where
  "MAX_BANDS = 32"

text \<open>The C cast from a float to an integer type truncates towards zero.\<close>

definition trunc_int :: "real \<Rightarrow> int" where
  "trunc_int x = (if 0 \<le> x then \<lfloor>x\<rfloor> else \<lceil>x\<rceil>)"

section \<open>The C library functions the plugin calls\<close>

text \<open>
  \<^verbatim>\<open>strstr\<close>, \<^verbatim>\<open>atoi\<close>, \<^verbatim>\<open>atof\<close> and \<^verbatim>\<open>snprintf\<close> belong to the C library, not to
  the plugin; they are modelled after the C standard on C strings without a NUL
  character inside. \<^verbatim>\<open>atof\<close> covers decimal numbers with an optional fraction and
  exponent; hexadecimal floats and the words \<^verbatim>\<open>inf\<close> and \<^verbatim>\<open>nan\<close>, which have no
  real value, are read as text without digits (0).
\<close>

definition isspace :: "char \<Rightarrow> bool" where
  "isspace c = ((of_char c :: nat) = 32 \<or> (9 \<le> (of_char c :: nat) \<and> (of_char c :: nat) \<le> 13))"

definition isdigit :: "char \<Rightarrow> bool" where
  "isdigit c = (48 \<le> (of_char c :: nat) \<and> (of_char c :: nat) \<le> 57)"

definition digit_val :: "char \<Rightarrow> nat" where
  "digit_val c = of_char c - 48"

fun digits_val :: "nat \<Rightarrow> string \<Rightarrow> nat" where
  "digits_val acc [] = acc"
| "digits_val acc (c # cs) = digits_val (10 * acc + digit_val c) cs"

definition strip_sign :: "string \<Rightarrow> bool \<times> string" where
  "strip_sign s =
     (case s of
        [] \<Rightarrow> (False, [])
      | c # cs \<Rightarrow>
          if c = CHR ''-'' then (True, cs)
          else if c = CHR ''+'' then (False, cs)
          else (False, s))"

definition atoi :: "string \<Rightarrow> int" where
  "atoi s =
     (let (neg, r) = strip_sign (dropWhile isspace s);
          n = int (digits_val 0 (takeWhile isdigit r))
      in if neg then - n else n)"

definition parse_exponent :: "string \<Rightarrow> int" where
  "parse_exponent s =
     (case s of
        [] \<Rightarrow> 0
      | c # cs \<Rightarrow>
          if c = CHR ''e'' \<or> c = CHR ''E'' then
            (let (neg, r) = strip_sign cs;
                 ds = takeWhile isdigit r
             in if neg then - int (digits_val 0 ds) else int (digits_val 0 ds))
          else 0)"

definition scale10 :: "real \<Rightarrow> int \<Rightarrow> real" where
  "scale10 m e = (if 0 \<le> e then m * 10 ^ nat e else m / 10 ^ nat (- e))"

definition atof :: "string \<Rightarrow> real" where
  "atof s =
     (let (neg, r) = strip_sign (dropWhile isspace s);
          ip = takeWhile isdigit r;
          r1 = dropWhile isdigit r;
          has_point = (case r1 of [] \<Rightarrow> False | c # cs \<Rightarrow> c = CHR ''.'');
          fp = (if has_point then takeWhile isdigit (tl r1) else []);
          r2 = (if has_point then dropWhile isdigit (tl r1) else r1);
          m = real (digits_val 0 ip) + real (digits_val 0 fp) / 10 ^ length fp;
          x = (if ip = [] \<and> fp = [] then 0 else scale10 m (parse_exponent r2))
      in if neg then - x else x)"

fun strstr :: "string \<Rightarrow> string \<Rightarrow> string option" where
  "strstr [] pat = (if pat = [] then Some [] else None)"
| "strstr (c # cs) pat =
     (if take (length pat) (c # cs) = pat then Some (c # cs) else strstr cs pat)"

text \<open>
  \<^verbatim>\<open>%d\<close> and \<^verbatim>\<open>%.Nf\<close> of \<^verbatim>\<open>snprintf\<close>. A decimal tie of the exact value rounds to
  the even neighbour, and the sign of a negative value is printed even when the
  digits round to zero.
\<close>

definition digit_char :: "nat \<Rightarrow> char" where
  "digit_char d = ''0123456789'' ! d"

fun nat_digits :: "nat \<Rightarrow> string" where
  "nat_digits n =
     (if n < 10 then [digit_char n] else nat_digits (n div 10) @ [digit_char (n mod 10)])"

fun pad_digits :: "nat \<Rightarrow> nat \<Rightarrow> string" where
  "pad_digits 0 n = []"
| "pad_digits (Suc d) n = pad_digits d (n div 10) @ [digit_char (n mod 10)]"

definition fmt_d :: "int \<Rightarrow> string" where
  "fmt_d x = (if x < 0 then CHR ''-'' # nat_digits (nat (- x)) else nat_digits (nat x))"

definition round_half_even :: "real \<Rightarrow> int" where
  "round_half_even y =
     (let f = \<lfloor>y\<rfloor>; r = y - of_int f
      in if r < 1 / 2 then f else if r > 1 / 2 then f + 1 else if even f then f else f + 1)"

definition fmt_f :: "nat \<Rightarrow> real \<Rightarrow> string" where
  "fmt_f d x =
     (let r = nat (round_half_even (\<bar>x\<bar> * 10 ^ d))
      in (if x < 0 then [CHR ''-''] else []) @
         nat_digits (r div 10 ^ d) @ [CHR ''.''] @ pad_digits d (r mod 10 ^ d))"

text \<open>
  \<^verbatim>\<open>snprintf(buf, buf_len, ...)\<close> on the formatted text \<open>s\<close>: the return value is the
  length of the whole text, whatever the size; the buffer receives at most
  \<open>buf_len - 1\<close> characters (and the terminator), and nothing when \<open>buf_len\<close> is 0.
  The buffer is modelled by the C string it holds, the length by a natural number.
\<close>

definition snprintf :: "string \<Rightarrow> nat \<Rightarrow> string \<Rightarrow> int \<times> string" where
  "snprintf buf buf_len s = (int (length s), if buf_len = 0 then buf else take (buf_len - 1) s)"

section \<open>Clamp helpers and band snapping\<close>

definition clampf :: "real \<Rightarrow> real \<Rightarrow> real \<Rightarrow> real" where
  "clampf x lo hi = (if x < lo then lo else if x > hi then hi else x)"

definition clampi :: "int \<Rightarrow> int \<Rightarrow> int \<Rightarrow> int" where
  "clampi x lo hi = (if x < lo then lo else if x > hi then hi else x)"

definition snap_bands :: "int \<Rightarrow> int" where
  "snap_bands v = (if v \<le> 12 then 8 else if v \<le> 20 then 16 else if v \<le> 28 then 24 else 32)"

section \<open>The vocoder instance\<close>

record svf_state_t =
  low :: real
  band :: real

record env_state_t =
  level :: real

record vocoder_instance_t =
  bands :: int
  freq_low :: real
  freq_high :: real
  attack_ms :: real
  release_ms :: real
  mod_gain :: real
  mix :: real
  carrier_mix :: real
  band_f :: "real list"
  band_q :: "real list"
  att_coeff :: real
  rel_coeff :: real
  mod_svf_l :: "svf_state_t list"
  mod_svf_r :: "svf_state_t list"
  car_svf_l :: "svf_state_t list"
  car_svf_r :: "svf_state_t list"
  mod_env_l :: "env_state_t list"
  mod_env_r :: "env_state_t list"
  noise_seed :: "32 word"

definition svf_zero :: svf_state_t where
  "svf_zero = \<lparr>low = 0, band = 0\<rparr>"

definition env_zero :: env_state_t where
  "env_zero = \<lparr>level = 0\<rparr>"

subsection \<open>Coefficient recomputation\<close>

text \<open>
  One pass of the \<^verbatim>\<open>for\<close> loop of \<^verbatim>\<open>recalc_bands\<close>, for band \<open>i\<close>. The arrays have
  \<^verbatim>\<open>MAX_BANDS\<close> entries; the band count never exceeds that.
\<close>

definition recalc_band :: "real \<Rightarrow> real \<Rightarrow> int \<Rightarrow> nat \<Rightarrow> vocoder_instance_t \<Rightarrow> vocoder_instance_t" where
  "recalc_band log_low log_high n i v =
     (let t = (if n > 1 then real i / real_of_int (n - 1) else 0.5);
          fc = exp (log_low + t * (log_high - log_low));
          f0 = 2 * sin (pi * fc / SAMPLE_RATE);
          f = (if f0 > 1 then 1 else f0);
          Q = 1 + 0.5 * sqrt (real_of_int n)
      in v\<lparr>band_f := (band_f v)[i := f], band_q := (band_q v)[i := 1 / Q]\<rparr>)"

definition recalc_bands :: "vocoder_instance_t \<Rightarrow> vocoder_instance_t" where
  "recalc_bands v =
     (let log_low = ln (freq_low v);
          log_high = ln (freq_high v);
          n = bands v;
          v1 = fold (recalc_band log_low log_high n) [0 ..< nat n] v;
          att_ms = (if attack_ms v1 < 0.1 then 0.1 else attack_ms v1);
          rel_ms = (if release_ms v1 < 0.1 then 0.1 else release_ms v1)
      in v1\<lparr>att_coeff := 1 - exp (- 1 / (att_ms * 0.001 * SAMPLE_RATE)),
            rel_coeff := 1 - exp (- 1 / (rel_ms * 0.001 * SAMPLE_RATE))\<rparr>)"

definition clear_filters :: "vocoder_instance_t \<Rightarrow> vocoder_instance_t" where
  "clear_filters v =
     v\<lparr>mod_svf_l := replicate MAX_BANDS svf_zero,
       mod_svf_r := replicate MAX_BANDS svf_zero,
       car_svf_l := replicate MAX_BANDS svf_zero,
       car_svf_r := replicate MAX_BANDS svf_zero,
       mod_env_l := replicate MAX_BANDS env_zero,
       mod_env_r := replicate MAX_BANDS env_zero\<rparr>"

subsection \<open>Extraction of a number from the state text\<close>

text \<open>
  The search text \<open>"key":\<close> that both extractors build in a 64-byte buffer; the keys
  they are called with are literals of at most eleven characters.
\<close>

definition json_search :: "string \<Rightarrow> string" where
  "json_search key = CHR 0x22 # key @ [CHR 0x22, CHR '':'']"

definition skip_blanks :: "string \<Rightarrow> string" where
  "skip_blanks p = dropWhile (\<lambda>c. c = CHR '' '' \<or> c = CHR 0x09) p"

text \<open>\<open>None\<close> is the return value \<open>-1\<close> (the output is not written), \<open>Some x\<close> is 0.\<close>

definition json_get_float :: "string \<Rightarrow> string \<Rightarrow> real option" where
  "json_get_float json key =
     (case strstr json (json_search key) of
        None \<Rightarrow> None
      | Some p \<Rightarrow> Some (atof (skip_blanks (drop (length (json_search key)) p))))"

definition json_get_int :: "string \<Rightarrow> string \<Rightarrow> int option" where
  "json_get_int json key =
     (case strstr json (json_search key) of
        None \<Rightarrow> None
      | Some p \<Rightarrow> Some (atoi (skip_blanks (drop (length (json_search key)) p))))"

subsection \<open>Creation and parameter setting\<close>

text \<open>The instance after a successful \<^verbatim>\<open>calloc\<close>: all zero, then the defaults.\<close>

definition calloc_instance :: vocoder_instance_t where
  "calloc_instance =
     \<lparr>bands = 0, freq_low = 0, freq_high = 0, attack_ms = 0, release_ms = 0,
      mod_gain = 0, mix = 0, carrier_mix = 0,
      band_f = replicate MAX_BANDS 0, band_q = replicate MAX_BANDS 0,
      att_coeff = 0, rel_coeff = 0,
      mod_svf_l = replicate MAX_BANDS svf_zero, mod_svf_r = replicate MAX_BANDS svf_zero,
      car_svf_l = replicate MAX_BANDS svf_zero, car_svf_r = replicate MAX_BANDS svf_zero,
      mod_env_l = replicate MAX_BANDS env_zero, mod_env_r = replicate MAX_BANDS env_zero,
      noise_seed = 0\<rparr>"

definition v2_create_instance :: vocoder_instance_t where
  "v2_create_instance =
     recalc_bands
       (calloc_instance\<lparr>bands := 16, freq_low := 100, freq_high := 8000,
          attack_ms := 5, release_ms := 50, mod_gain := 1, mix := 1,
          carrier_mix := 0.1, noise_seed := 12345\<rparr>)"

text \<open>The \<^verbatim>\<open>"state"\<close> branch of \<^verbatim>\<open>v2_set_param\<close>: the eight extractions in order.\<close>

definition set_state_fields :: "vocoder_instance_t \<Rightarrow> string \<Rightarrow> vocoder_instance_t" where
  "set_state_fields v val =
     (let v1 = (case json_get_int val ''bands'' of
                  Some iv \<Rightarrow> v\<lparr>bands := snap_bands (clampi iv 8 32)\<rparr> | None \<Rightarrow> v);
          v2 = (case json_get_float val ''freq_low'' of
                  Some fv \<Rightarrow> v1\<lparr>freq_low := clampf fv 80 500\<rparr> | None \<Rightarrow> v1);
          v3 = (case json_get_float val ''freq_high'' of
                  Some fv \<Rightarrow> v2\<lparr>freq_high := clampf fv 2000 12000\<rparr> | None \<Rightarrow> v2);
          v4 = (case json_get_float val ''attack'' of
                  Some fv \<Rightarrow> v3\<lparr>attack_ms := clampf fv 0.1 50\<rparr> | None \<Rightarrow> v3);
          v5 = (case json_get_float val ''release'' of
                  Some fv \<Rightarrow> v4\<lparr>release_ms := clampf fv 5 500\<rparr> | None \<Rightarrow> v4);
          v6 = (case json_get_float val ''mod_gain'' of
                  Some fv \<Rightarrow> v5\<lparr>mod_gain := clampf fv 0 3\<rparr> | None \<Rightarrow> v5);
          v7 = (case json_get_float val ''mix'' of
                  Some fv \<Rightarrow> v6\<lparr>mix := clampf fv 0 1\<rparr> | None \<Rightarrow> v6)
      in (case json_get_float val ''carrier_mix'' of
            Some fv \<Rightarrow> v7\<lparr>carrier_mix := clampf fv 0 1\<rparr> | None \<Rightarrow> v7))"

text \<open>A null instance makes the call a no-op: \<open>None\<close> stays \<open>None\<close>.\<close>

fun v2_set_param :: "vocoder_instance_t option \<Rightarrow> string \<Rightarrow> string \<Rightarrow> vocoder_instance_t option" where
  "v2_set_param None key val = None"
| "v2_set_param (Some v) key val =
     (if key = ''state'' then
        Some (recalc_bands (clear_filters (set_state_fields v val)))
      else
        (let fv = atof val in
         if key = ''bands'' then
           (let new_bands = snap_bands (clampi (trunc_int fv) 8 32) in
            if new_bands \<noteq> bands v
            then Some (recalc_bands (clear_filters (v\<lparr>bands := new_bands\<rparr>)))
            else Some v)
         else if key = ''freq_low'' then
           Some (recalc_bands (v\<lparr>freq_low := clampf fv 80 500\<rparr>))
         else if key = ''freq_high'' then
           Some (recalc_bands (v\<lparr>freq_high := clampf fv 2000 12000\<rparr>))
         else if key = ''attack'' then
           Some (recalc_bands (v\<lparr>attack_ms := clampf fv 0.1 50\<rparr>))
         else if key = ''release'' then
           Some (recalc_bands (v\<lparr>release_ms := clampf fv 5 500\<rparr>))
         else if key = ''mod_gain'' then
           Some (v\<lparr>mod_gain := clampf fv 0 3\<rparr>)
         else if key = ''mix'' then
           Some (v\<lparr>mix := clampf fv 0 1\<rparr>)
         else if key = ''carrier_mix'' then
           Some (v\<lparr>carrier_mix := clampf fv 0 1\<rparr>)
         else Some v))"

subsection \<open>Parameter queries\<close>

definition dq :: char where
  "dq = CHR 0x22"

definition state_text :: "vocoder_instance_t \<Rightarrow> string" where
  "state_text v =
     ''{'' @ [dq] @ ''bands'' @ [dq] @ '':'' @ fmt_d (bands v) @
     '','' @ [dq] @ ''freq_low'' @ [dq] @ '':'' @ fmt_f 1 (freq_low v) @
     '','' @ [dq] @ ''freq_high'' @ [dq] @ '':'' @ fmt_f 1 (freq_high v) @
     '','' @ [dq] @ ''attack'' @ [dq] @ '':'' @ fmt_f 1 (attack_ms v) @
     '','' @ [dq] @ ''release'' @ [dq] @ '':'' @ fmt_f 1 (release_ms v) @
     '','' @ [dq] @ ''mod_gain'' @ [dq] @ '':'' @ fmt_f 2 (mod_gain v) @
     '','' @ [dq] @ ''mix'' @ [dq] @ '':'' @ fmt_f 2 (mix v) @
     '','' @ [dq] @ ''carrier_mix'' @ [dq] @ '':'' @ fmt_f 2 (carrier_mix v) @ ''}''"

definition hierarchy :: string where
  \<open>hierarchy =
        ''{"modes":null,"levels":{"root":{"children":null,"knobs":["bands","freq'' @
        ''_low","freq_high","attack","release","mod_gain","mix","carrier_mix"],"'' @
        ''params":["bands","freq_low","freq_high","attack","release","mod_gain",'' @
        ''"mix","carrier_mix"]}}}''\<close>

definition params_json :: string where
  \<open>params_json =
        ''[{"key":"bands","name":"Bands","type":"enum","options":["8","16","24",'' @
        ''"32"],"default":"16"},{"key":"freq_low","name":"Low Freq","type":"floa'' @
        ''t","min":80,"max":500,"default":100,"step":10,"unit":"Hz"},{"key":"fre'' @
        ''q_high","name":"High Freq","type":"float","min":2000,"max":12000,"defa'' @
        ''ult":8000,"step":100,"unit":"Hz"},{"key":"attack","name":"Attack","typ'' @
        ''e":"float","min":0.1,"max":50,"default":5,"step":0.5,"unit":"ms"},{"ke'' @
        ''y":"release","name":"Release","type":"float","min":5,"max":500,"defaul'' @
        ''t":50,"step":5,"unit":"ms"},{"key":"mod_gain","name":"Mod Gain","type"'' @
        '':"float","min":0,"max":3,"default":1,"step":0.05},{"key":"mix","name":'' @
        ''"Mix","type":"float","min":0,"max":1,"default":1,"step":0.01},{"key":"'' @
        ''carrier_mix","name":"Unvoiced","type":"float","min":0,"max":1,"default'' @
        ''":0.1,"step":0.01}]''\<close>

text \<open>
  The result is the return value and the C string in the buffer afterwards; a null
  instance returns \<open>-1\<close> and leaves the buffer alone.
\<close>

fun v2_get_param :: "vocoder_instance_t option \<Rightarrow> string \<Rightarrow> string \<Rightarrow> nat \<Rightarrow> int \<times> string" where
  "v2_get_param None key buf buf_len = (- 1, buf)"
| "v2_get_param (Some v) key buf buf_len =
     (if key = ''name'' then snprintf buf buf_len ''Vocoder''
      else if key = ''bands'' then snprintf buf buf_len (fmt_d (bands v))
      else if key = ''freq_low'' then snprintf buf buf_len (fmt_f 1 (freq_low v))
      else if key = ''freq_high'' then snprintf buf buf_len (fmt_f 1 (freq_high v))
      else if key = ''attack'' then snprintf buf buf_len (fmt_f 1 (attack_ms v))
      else if key = ''release'' then snprintf buf buf_len (fmt_f 1 (release_ms v))
      else if key = ''mod_gain'' then snprintf buf buf_len (fmt_f 2 (mod_gain v))
      else if key = ''mix'' then snprintf buf buf_len (fmt_f 2 (mix v))
      else if key = ''carrier_mix'' then snprintf buf buf_len (fmt_f 2 (carrier_mix v))
      else if key = ''state'' then snprintf buf buf_len (state_text v)
      else if key = ''ui_hierarchy'' then
        (let len = length hierarchy in
         if len < buf_len then (int len, hierarchy) else (- 1, buf))
      else if key = ''chain_params'' then
        (let len = length params_json in
         if len < buf_len then (int len, params_json) else (- 1, buf))
      else (- 1, buf))"

subsection \<open>Filters, envelope follower and noise\<close>

definition svf_bandpass :: "svf_state_t \<Rightarrow> real \<Rightarrow> real \<Rightarrow> real \<Rightarrow> svf_state_t \<times> real" where
  "svf_bandpass s input f q =
     (let low' = low s + f * band s;
          high = input - low' - q * band s;
          band' = band s + f * high
      in (\<lparr>low = low', band = band'\<rparr>, band'))"

definition env_follow :: "env_state_t \<Rightarrow> real \<Rightarrow> real \<Rightarrow> real \<Rightarrow> env_state_t \<times> real" where
  "env_follow e input att rel =
     (let rect = \<bar>input\<bar>;
          coeff = (if rect > level e then att else rel);
          level' = level e + coeff * (rect - level e)
      in (\<lparr>level = level'\<rparr>, level'))"

definition noise_sample :: "32 word \<Rightarrow> 32 word \<times> real" where
  "noise_sample seed =
     (let seed' = seed * 1664525 + 1013904223
      in (seed', real_of_int (sint seed') / 2147483648))"

subsection \<open>Block processing\<close>

text \<open>The host: the 16-bit samples at \<^verbatim>\<open>mapped_memory + audio_in_offset\<close>.\<close>

record host_api_v1_t =
  audio_in :: "int list"

text \<open>The values of one frame that the band loop reads but does not change.\<close>

record frame_locals =
  mod_l :: real
  mod_r :: real
  car_noise_l :: real
  car_noise_r :: real
  att :: real
  rel :: real

text \<open>The body of the loop over the bands, for band \<open>b\<close>.\<close>

definition band_step ::
  "frame_locals \<Rightarrow> nat \<Rightarrow> vocoder_instance_t \<times> real \<times> real \<Rightarrow> vocoder_instance_t \<times> real \<times> real" where
  "band_step fl b = (\<lambda>(v, out_l, out_r).
     (let f = band_f v ! b;
          q = band_q v ! b;
          (ml, mod_band_l) = svf_bandpass (mod_svf_l v ! b) (mod_l fl) f q;
          (mr, mod_band_r) = svf_bandpass (mod_svf_r v ! b) (mod_r fl) f q;
          (el, env_l) = env_follow (mod_env_l v ! b) mod_band_l (att fl) (rel fl);
          (er, env_r) = env_follow (mod_env_r v ! b) mod_band_r (att fl) (rel fl);
          (cl, car_band_l) = svf_bandpass (car_svf_l v ! b) (car_noise_l fl) f q;
          (cr, car_band_r) = svf_bandpass (car_svf_r v ! b) (car_noise_r fl) f q
      in (v\<lparr>mod_svf_l := (mod_svf_l v)[b := ml],
             mod_svf_r := (mod_svf_r v)[b := mr],
             car_svf_l := (car_svf_l v)[b := cl],
             car_svf_r := (car_svf_r v)[b := cr],
             mod_env_l := (mod_env_l v)[b := el],
             mod_env_r := (mod_env_r v)[b := er]\<rparr>,
          out_l + car_band_l * env_l,
          out_r + car_band_r * env_r)))"

text \<open>The values read from the instance before the loop over the frames.\<close>

record block_locals =
  n_bands :: int
  att_c :: real
  rel_c :: real
  mod_gain_c :: real
  wet :: real
  dry :: real
  noise_mix :: real

definition read_locals :: "vocoder_instance_t \<Rightarrow> block_locals" where
  "read_locals v =
     \<lparr>n_bands = bands v, att_c = att_coeff v, rel_c = rel_coeff v,
      mod_gain_c = mod_gain v, wet = mix v, dry = 1 - mix v, noise_mix = carrier_mix v\<rparr>"

text \<open>
  The body of the loop over the frames, for frame \<open>i\<close>. The sample written is the
  integer the conversion to \<^verbatim>\<open>int16_t\<close> yields when it is representable.
\<close>

definition process_frame ::
  "block_locals \<Rightarrow> int list \<Rightarrow> nat \<Rightarrow> vocoder_instance_t \<times> int list \<Rightarrow> vocoder_instance_t \<times> int list" where
  "process_frame bl mic_in i = (\<lambda>(v, audio_inout).
     (let car_l = real_of_int (audio_inout ! (i * 2)) / 32768;
          car_r = real_of_int (audio_inout ! (i * 2 + 1)) / 32768;
          m_l = real_of_int (mic_in ! (i * 2)) / 32768 * mod_gain_c bl;
          m_r = real_of_int (mic_in ! (i * 2 + 1)) / 32768 * mod_gain_c bl;
          (seed', ns) = noise_sample (noise_seed v);
          fl = \<lparr>mod_l = m_l, mod_r = m_r,
                car_noise_l = car_l + ns * noise_mix bl,
                car_noise_r = car_r + ns * noise_mix bl,
                att = att_c bl, rel = rel_c bl\<rparr>;
          (v', out_l, out_r) =
             fold (band_step fl) [0 ..< nat (n_bands bl)] (v\<lparr>noise_seed := seed'\<rparr>, 0, 0);
          scale = 2 / sqrt (real_of_int (n_bands bl));
          mix_l = clampf (out_l * scale * wet bl + car_l * dry bl) (- 1) 1;
          mix_r = clampf (out_r * scale * wet bl + car_r * dry bl) (- 1) 1
      in (v', audio_inout[i * 2 := trunc_int (mix_l * 32767),
                          i * 2 + 1 := trunc_int (mix_r * 32767)])))"

text \<open>
  \<open>g_host\<close> is the global host binding. The outer \<open>None\<close> is undefined behaviour: a
  buffer shorter than the frames read and written, or more bands than the arrays
  hold. A null instance or host leaves everything as it is.
\<close>

definition v2_process_block ::
  "host_api_v1_t option \<Rightarrow> vocoder_instance_t option \<Rightarrow> int list \<Rightarrow> int \<Rightarrow>
   (vocoder_instance_t option \<times> int list) option" where
  "v2_process_block g_host instance audio_inout frames =
     (case instance of
        None \<Rightarrow> Some (None, audio_inout)
      | Some v \<Rightarrow>
         (case g_host of
            None \<Rightarrow> Some (Some v, audio_inout)
          | Some host \<Rightarrow>
              if 0 < frames \<and>
                 (length audio_inout < 2 * nat frames \<or> length (audio_in host) < 2 * nat frames \<or>
                  MAX_BANDS < nat (bands v))
              then None
              else
                (let (v', out) =
                       fold (process_frame (read_locals v) (audio_in host)) [0 ..< nat frames]
                         (v, audio_inout)
                 in Some (Some v', out))))"

section \<open>Auxiliary notions\<close>

text \<open>
  What the number parsers see of a text: \<open>digits\<close> is a run of decimal digits,
  \<open>stops\<close> a remainder at which \<^verbatim>\<open>atoi\<close> stops reading, \<open>stops_f\<close> one at which
  \<^verbatim>\<open>atof\<close> stops reading a number without an exponent.
\<close>

definition digits :: "string \<Rightarrow> bool" where
  "digits ds = (\<forall>c \<in> set ds. isdigit c)"

definition stops :: "string \<Rightarrow> bool" where
  "stops rest = (case rest of [] \<Rightarrow> True | c # cs \<Rightarrow> \<not> isdigit c)"

definition stops_f :: "string \<Rightarrow> bool" where
  "stops_f rest = (case rest of [] \<Rightarrow> True
      | c # cs \<Rightarrow> \<not> isdigit c \<and> c \<noteq> CHR ''.'' \<and> c \<noteq> CHR ''e'' \<and> c \<noteq> CHR ''E'')"

text \<open>
  The effect of one pass of the band loop on the instance alone, the noise generator's
  step, the locals of frame \<open>i\<close> as \<open>process_frame\<close> computes them, and what a carrier
  sample becomes when only the dry path contributes.
\<close>

definition band_upd :: "frame_locals \<Rightarrow> nat \<Rightarrow> vocoder_instance_t \<Rightarrow> vocoder_instance_t" where
  "band_upd fl b v = fst (band_step fl b (v, 0, 0))"

definition lcg :: "32 word \<Rightarrow> 32 word" where
  "lcg seed = seed * 1664525 + 1013904223"

definition frame_fl :: "block_locals \<Rightarrow> int list \<Rightarrow> nat \<Rightarrow> vocoder_instance_t \<Rightarrow> int list \<Rightarrow> frame_locals" where
  "frame_fl bl mic_in i v audio_inout =
     \<lparr>mod_l = real_of_int (mic_in ! (i * 2)) / 32768 * mod_gain_c bl,
      mod_r = real_of_int (mic_in ! (i * 2 + 1)) / 32768 * mod_gain_c bl,
      car_noise_l = real_of_int (audio_inout ! (i * 2)) / 32768 + snd (noise_sample (noise_seed v)) * noise_mix bl,
      car_noise_r = real_of_int (audio_inout ! (i * 2 + 1)) / 32768 + snd (noise_sample (noise_seed v)) * noise_mix bl,
      att = att_c bl, rel = rel_c bl\<rparr>"

definition dry_sample :: "int \<Rightarrow> int" where
  "dry_sample x = trunc_int (clampf (real_of_int x / 32768) (- 1) 1 * 32767)"

text \<open>The range of an \<^verbatim>\<open>int16_t\<close>.\<close>

definition is_int16 :: "int \<Rightarrow> bool" where
  "is_int16 x = (- 32768 \<le> x \<and> x \<le> 32767)"

text \<open>
  The frequency coefficient of band \<open>i\<close> and the envelope coefficient of a time constant,
  as functions of the parameters.
\<close>

definition band_coeff :: "vocoder_instance_t \<Rightarrow> nat \<Rightarrow> real" where
  "band_coeff v i =
     (let t = (if bands v > 1 then real i / real_of_int (bands v - 1) else 0.5);
          fc = exp (ln (freq_low v) + t * (ln (freq_high v) - ln (freq_low v)));
          f0 = 2 * sin (pi * fc / SAMPLE_RATE)
      in if f0 > 1 then 1 else f0)"

definition env_coeff :: "real \<Rightarrow> real" where
  "env_coeff ms = 1 - exp (- 1 / ((if ms < 0.1 then 0.1 else ms) * 0.001 * SAMPLE_RATE))"

text \<open>The keys that \<open>v2_set_param\<close> compares against.\<close>

definition known_keys :: "string list" where
  "known_keys = [''state'', ''bands'', ''freq_low'', ''freq_high'', ''attack'', ''release'',
                 ''mod_gain'', ''mix'', ''carrier_mix'']"

text \<open>
  Two concrete inputs: the created instance after one frame with carrier samples 16384
  and a silent modulator, and a state text that holds two of the eight fields, one of
  them not a number.
\<close>

definition played_instance :: vocoder_instance_t where
  "played_instance =
     fst (fold (process_frame (read_locals v2_create_instance) [0, 0]) [0 ..< 1]
            (v2_create_instance, [16384, 16384]))"

definition partial_state_text :: string where
  \<open>partial_state_text = ''{"mix":0.25,"attack":abc}''\<close>

text \<open>
  The parameter ranges, and the instances that a host can reach: it creates an
  instance, sets parameters and processes blocks.
\<close>

definition params_ok :: "vocoder_instance_t \<Rightarrow> bool" where
  "params_ok v =
     ((bands v = 8 \<or> bands v = 16 \<or> bands v = 24 \<or> bands v = 32) \<and>
      80 \<le> freq_low v \<and> freq_low v \<le> 500 \<and>
      2000 \<le> freq_high v \<and> freq_high v \<le> 12000 \<and>
      0.1 \<le> attack_ms v \<and> attack_ms v \<le> 50 \<and>
      5 \<le> release_ms v \<and> release_ms v \<le> 500 \<and>
      0 \<le> mod_gain v \<and> mod_gain v \<le> 3 \<and>
      0 \<le> mix v \<and> mix v \<le> 1 \<and>
      0 \<le> carrier_mix v \<and> carrier_mix v \<le> 1)"

inductive reachable :: "vocoder_instance_t \<Rightarrow> bool" where
  created: "reachable v2_create_instance"
| param_set: "reachable v \<Longrightarrow> v2_set_param (Some v) key val = Some v' \<Longrightarrow> reachable v'"
| block_processed:
    "reachable v \<Longrightarrow> v2_process_block (Some host) (Some v) audio frames = Some (Some v', out) \<Longrightarrow>
     reachable v'"

section \<open>Facts about the library model\<close>

declare nat_digits.simps [simp del]

lemma digit_char_cases:
  "d < 10 \<Longrightarrow> d = 0 \<or> d = 1 \<or> d = 2 \<or> d = 3 \<or> d = 4 \<or> d = 5 \<or> d = 6 \<or> d = 7 \<or> d = 8 \<or> d = (9::nat)"
  by arith

lemma digit_val_digit_char: "d < 10 \<Longrightarrow> digit_val (digit_char d) = d"
  using digit_char_cases [of d] by (auto simp: digit_val_def digit_char_def)

lemma isdigit_digit_char: "d < 10 \<Longrightarrow> isdigit (digit_char d)"
  using digit_char_cases [of d] by (auto simp: isdigit_def digit_char_def)

lemma isdigit_not_special:
  "isdigit c \<Longrightarrow> \<not> isspace c \<and> c \<noteq> CHR ''-'' \<and> c \<noteq> CHR ''+'' \<and> c \<noteq> CHR ''.'' \<and> c \<noteq> dq"
  by (auto simp: isdigit_def isspace_def dq_def)

lemma digits_val_append: "digits_val acc (xs @ ys) = digits_val (digits_val acc xs) ys"
  by (induction xs arbitrary: acc) auto

lemma nat_digits_all: "c \<in> set (nat_digits n) \<Longrightarrow> isdigit c"
proof (induction n rule: nat_digits.induct)
  case (1 n)
  show ?case
  proof (cases "n < 10")
    case True
    with 1(2) show ?thesis by (subst (asm) nat_digits.simps) (simp add: isdigit_digit_char)
  next
    case False
    with 1 show ?thesis by (subst (asm) (2) nat_digits.simps) (auto simp: isdigit_digit_char)
  qed
qed

lemma nat_digits_ne: "nat_digits n \<noteq> []"
  by (subst nat_digits.simps) simp

lemma digits_val_nat_digits: "digits_val acc (nat_digits n) = acc * 10 ^ length (nat_digits n) + n"
proof (induction n arbitrary: acc rule: nat_digits.induct)
  case (1 n)
  show ?case
  proof (cases "n < 10")
    case True
    then show ?thesis by (subst (1 2) nat_digits.simps) (simp add: digit_val_digit_char)
  next
    case False
    have "digits_val acc (nat_digits n) = 10 * digits_val acc (nat_digits (n div 10)) + n mod 10"
      using False by (subst nat_digits.simps) (simp add: digits_val_append digit_val_digit_char)
    also have "\<dots> = 10 * (acc * 10 ^ length (nat_digits (n div 10)) + n div 10) + n mod 10"
      using 1 False by simp
    also have "\<dots> = acc * 10 ^ length (nat_digits n) + n"
      using False by (subst (2) nat_digits.simps) (simp add: algebra_simps)
    finally show ?thesis .
  qed
qed

lemma digits_val_nat_digits0 [simp]: "digits_val 0 (nat_digits n) = n"
  by (simp add: digits_val_nat_digits)

lemma digits_nat_digits [simp]: "digits (nat_digits n)"
  by (simp add: digits_def nat_digits_all)

lemma takeWhile_digits: "digits ds \<Longrightarrow> stops rest \<Longrightarrow> takeWhile isdigit (ds @ rest) = ds"
  by (cases rest) (auto simp: digits_def stops_def takeWhile_append2)

lemma dropWhile_digits: "digits ds \<Longrightarrow> stops rest \<Longrightarrow> dropWhile isdigit (ds @ rest) = rest"
  by (cases rest) (auto simp: digits_def stops_def dropWhile_append2)

lemma lead_digit:
  assumes "digits ds" "ds \<noteq> []"
  shows "dropWhile isspace (ds @ rest) = ds @ rest" "strip_sign (ds @ rest) = (False, ds @ rest)"
proof -
  obtain c cs where ds: "ds = c # cs" using assms(2) by (cases ds) auto
  then have "isdigit c" using assms(1) by (simp add: digits_def)
  then show "dropWhile isspace (ds @ rest) = ds @ rest" "strip_sign (ds @ rest) = (False, ds @ rest)"
    using isdigit_not_special [of c] by (simp_all add: ds strip_sign_def)
qed

lemma atoi_digits:
  assumes "digits ds" "ds \<noteq> []" "stops rest"
  shows "atoi (ds @ rest) = int (digits_val 0 ds)"
  by (simp add: atoi_def lead_digit [OF assms(1,2)] takeWhile_digits [OF assms(1,3)])

lemma atoi_fmt_d: "stops rest \<Longrightarrow> atoi (fmt_d x @ rest) = x"
proof (cases "x < 0")
  case True
  assume "stops rest"
  then have "takeWhile isdigit (nat_digits (nat (- x)) @ rest) = nat_digits (nat (- x))"
    by (simp add: takeWhile_digits)
  with True show ?thesis
    by (simp add: fmt_d_def atoi_def isspace_def strip_sign_def)
next
  case False
  assume "stops rest"
  with False show ?thesis
    by (simp add: fmt_d_def atoi_digits nat_digits_ne)
qed

lemma stops_f_stops: "stops_f rest \<Longrightarrow> stops rest"
  by (auto simp: stops_f_def stops_def split: list.splits)

lemma parse_exponent_stops_f: "stops_f rest \<Longrightarrow> parse_exponent rest = 0"
  by (auto simp: stops_f_def parse_exponent_def split: list.splits)

lemma atof_unsigned_int:
  assumes "digits ds" "ds \<noteq> []" "stops_f rest"
  shows "atof (ds @ rest) = real (digits_val 0 ds)"
proof -
  have st: "stops rest" using assms(3) by (rule stops_f_stops)
  have np: "(case rest of [] \<Rightarrow> False | c # cs \<Rightarrow> c = CHR ''.'') = False"
    using assms(3) by (auto simp: stops_f_def split: list.splits)
  show ?thesis
    using assms(2)
    by (simp add: atof_def lead_digit [OF assms(1,2)] takeWhile_digits [OF assms(1) st]
        dropWhile_digits [OF assms(1) st] np parse_exponent_stops_f [OF assms(3)] scale10_def)
qed

lemma atof_unsigned_frac:
  assumes "digits ds" "ds \<noteq> []" "digits fs" "stops_f rest"
  shows "atof (ds @ CHR ''.'' # fs @ rest) = real (digits_val 0 ds) + real (digits_val 0 fs) / 10 ^ length fs"
proof -
  have st: "stops rest" using assms(4) by (rule stops_f_stops)
  have st2: "stops (CHR ''.'' # fs @ rest)" by (simp add: stops_def isdigit_def)
  show ?thesis
    using assms(2)
    by (simp add: atof_def lead_digit [OF assms(1,2)] takeWhile_digits [OF assms(1) st2]
        dropWhile_digits [OF assms(1) st2] takeWhile_digits [OF assms(3) st]
        dropWhile_digits [OF assms(3) st] parse_exponent_stops_f [OF assms(4)] scale10_def)
qed

lemma atof_minus:
  assumes "dropWhile isspace s = s" "strip_sign s = (False, s)"
  shows "atof (CHR ''-'' # s) = - atof s"
proof -
  have a: "dropWhile isspace (CHR ''-'' # s) = CHR ''-'' # s" by (simp add: isspace_def)
  have b: "strip_sign (CHR ''-'' # s) = (True, s)" by (simp add: strip_sign_def)
  show ?thesis
    unfolding atof_def a b assms by (simp add: Let_def)
qed

lemma atof_fmt_d: "stops_f rest \<Longrightarrow> atof (fmt_d x @ rest) = of_int x"
proof (cases "x < 0")
  case True
  assume sf: "stops_f rest"
  have "atof (fmt_d x @ rest) = - atof (nat_digits (nat (- x)) @ rest)"
    using True by (simp add: fmt_d_def atof_minus lead_digit nat_digits_ne)
  also have "\<dots> = - real (nat (- x))"
    using sf by (simp add: atof_unsigned_int nat_digits_ne)
  finally show ?thesis using True by simp
next
  case False
  assume "stops_f rest"
  with False show ?thesis
    by (simp add: fmt_d_def atof_unsigned_int nat_digits_ne)
qed

lemma trunc_int_of_int [simp]: "trunc_int (of_int x) = x"
  by (simp add: trunc_int_def)

lemma snap_clampi: "snap_bands (clampi x 8 32) = (if x \<le> 12 then 8 else if x \<le> 20 then 16 else if x \<le> 28 then 24 else 32)"
  by (simp add: snap_bands_def clampi_def)

section \<open>Facts about coefficient recomputation\<close>

lemma fold_recalc_band_frame:
  "\<exists>F Q. fold (recalc_band ll lh n) is v = v\<lparr>band_f := F, band_q := Q\<rparr>"
proof (induction "is" arbitrary: v)
  case Nil
  have "v = v\<lparr>band_f := band_f v, band_q := band_q v\<rparr>" by simp
  then show ?case by (metis fold_simps(1))
next
  case (Cons i "is")
  obtain F Q where fq: "fold (recalc_band ll lh n) is (recalc_band ll lh n i v) =
      (recalc_band ll lh n i v)\<lparr>band_f := F, band_q := Q\<rparr>"
    using Cons.IH by blast
  have "fold (recalc_band ll lh n) (i # is) v = v\<lparr>band_f := F, band_q := Q\<rparr>"
    by (simp add: fq) (simp add: recalc_band_def Let_def)
  then show ?case by blast
qed

lemma recalc_bands_frame:
  "\<exists>F Q a r. recalc_bands v = v\<lparr>band_f := F, band_q := Q, att_coeff := a, rel_coeff := r\<rparr>"
proof -
  obtain F Q where fq: "fold (recalc_band (ln (freq_low v)) (ln (freq_high v)) (bands v)) [0 ..< nat (bands v)] v =
      v\<lparr>band_f := F, band_q := Q\<rparr>"
    using fold_recalc_band_frame by blast
  show ?thesis
    unfolding recalc_bands_def Let_def fq by blast
qed

lemma recalc_bands_fields [simp]:
  "bands (recalc_bands v) = bands v"
  "freq_low (recalc_bands v) = freq_low v"
  "freq_high (recalc_bands v) = freq_high v"
  "attack_ms (recalc_bands v) = attack_ms v"
  "release_ms (recalc_bands v) = release_ms v"
  "mod_gain (recalc_bands v) = mod_gain v"
  "mix (recalc_bands v) = mix v"
  "carrier_mix (recalc_bands v) = carrier_mix v"
  "mod_svf_l (recalc_bands v) = mod_svf_l v"
  "mod_svf_r (recalc_bands v) = mod_svf_r v"
  "car_svf_l (recalc_bands v) = car_svf_l v"
  "car_svf_r (recalc_bands v) = car_svf_r v"
  "mod_env_l (recalc_bands v) = mod_env_l v"
  "mod_env_r (recalc_bands v) = mod_env_r v"
  "noise_seed (recalc_bands v) = noise_seed v"
  using recalc_bands_frame [of v] by auto

section \<open>Band snapping\<close>

lemma stops_f_Nil [simp]: "stops_f []"
  by (simp add: stops_f_def)

lemma atof_fmt_d_plain [simp]: "atof (fmt_d x) = of_int x"
  using atof_fmt_d [of "[]" x] by simp

lemma set_bands_stored:
  "map_option bands (v2_set_param (Some v) ''bands'' val) =
     Some (snap_bands (clampi (trunc_int (atof val)) 8 32))"
  by (simp add: Let_def clear_filters_def)



section \<open>Facts about block processing\<close>

lemma band_step_fst: "fst (band_step fl b (v, ol, orr)) = band_upd fl b v"
  by (simp add: band_upd_def band_step_def Let_def split_beta)

lemma fold_band_step_fst:
  "fst (fold (band_step fl) bs s) = fold (band_upd fl) bs (fst s)"
proof (induction bs arbitrary: s)
  case Nil
  show ?case by simp
next
  case (Cons b bs)
  obtain v ol orr where s: "s = (v, ol, orr)" by (cases s) auto
  show ?case by (simp add: Cons.IH s band_step_fst)
qed

lemma band_upd_eq:
  "band_upd fl b v =
     v\<lparr>mod_svf_l := (mod_svf_l v)[b := fst (svf_bandpass (mod_svf_l v ! b) (mod_l fl) (band_f v ! b) (band_q v ! b))],
       mod_svf_r := (mod_svf_r v)[b := fst (svf_bandpass (mod_svf_r v ! b) (mod_r fl) (band_f v ! b) (band_q v ! b))],
       car_svf_l := (car_svf_l v)[b := fst (svf_bandpass (car_svf_l v ! b) (car_noise_l fl) (band_f v ! b) (band_q v ! b))],
       car_svf_r := (car_svf_r v)[b := fst (svf_bandpass (car_svf_r v ! b) (car_noise_r fl) (band_f v ! b) (band_q v ! b))],
       mod_env_l := (mod_env_l v)[b := fst (env_follow (mod_env_l v ! b)
            (snd (svf_bandpass (mod_svf_l v ! b) (mod_l fl) (band_f v ! b) (band_q v ! b))) (att fl) (rel fl))],
       mod_env_r := (mod_env_r v)[b := fst (env_follow (mod_env_r v ! b)
            (snd (svf_bandpass (mod_svf_r v ! b) (mod_r fl) (band_f v ! b) (band_q v ! b))) (att fl) (rel fl))]\<rparr>"
  by (simp add: band_upd_def band_step_def Let_def split_beta)

lemma band_upd_fields [simp]:
  "bands (band_upd fl b v) = bands v"
  "freq_low (band_upd fl b v) = freq_low v"
  "freq_high (band_upd fl b v) = freq_high v"
  "attack_ms (band_upd fl b v) = attack_ms v"
  "release_ms (band_upd fl b v) = release_ms v"
  "mod_gain (band_upd fl b v) = mod_gain v"
  "mix (band_upd fl b v) = mix v"
  "carrier_mix (band_upd fl b v) = carrier_mix v"
  "band_f (band_upd fl b v) = band_f v"
  "band_q (band_upd fl b v) = band_q v"
  "att_coeff (band_upd fl b v) = att_coeff v"
  "rel_coeff (band_upd fl b v) = rel_coeff v"
  "noise_seed (band_upd fl b v) = noise_seed v"
  by (simp_all add: band_upd_eq)

lemma fold_band_upd_fields [simp]:
  "bands (fold (band_upd fl) bs v) = bands v"
  "freq_low (fold (band_upd fl) bs v) = freq_low v"
  "freq_high (fold (band_upd fl) bs v) = freq_high v"
  "attack_ms (fold (band_upd fl) bs v) = attack_ms v"
  "release_ms (fold (band_upd fl) bs v) = release_ms v"
  "mod_gain (fold (band_upd fl) bs v) = mod_gain v"
  "mix (fold (band_upd fl) bs v) = mix v"
  "carrier_mix (fold (band_upd fl) bs v) = carrier_mix v"
  "band_f (fold (band_upd fl) bs v) = band_f v"
  "band_q (fold (band_upd fl) bs v) = band_q v"
  "att_coeff (fold (band_upd fl) bs v) = att_coeff v"
  "rel_coeff (fold (band_upd fl) bs v) = rel_coeff v"
  "noise_seed (fold (band_upd fl) bs v) = noise_seed v"
  by (induction bs arbitrary: v; simp)+

lemma fold_band_upd_car_l:
  "length (car_svf_l (fold (band_upd fl) [0 ..< n] v)) = length (car_svf_l v) \<and>
   (\<forall>b. car_svf_l (fold (band_upd fl) [0 ..< n] v) ! b =
      (if b < n \<and> b < length (car_svf_l v)
       then fst (svf_bandpass (car_svf_l v ! b) (car_noise_l fl) (band_f v ! b) (band_q v ! b))
       else car_svf_l v ! b))"
proof (induction n)
  case 0
  show ?case by simp
next
  case (Suc n)
  let ?w = "fold (band_upd fl) [0 ..< n] v"
  have len: "length (car_svf_l ?w) = length (car_svf_l v)" using Suc by blast
  have nth: "\<And>b. car_svf_l ?w ! b =
      (if b < n \<and> b < length (car_svf_l v)
       then fst (svf_bandpass (car_svf_l v ! b) (car_noise_l fl) (band_f v ! b) (band_q v ! b))
       else car_svf_l v ! b)" using Suc by blast
  have step: "car_svf_l (fold (band_upd fl) [0 ..< Suc n] v) =
      (car_svf_l ?w)[n := fst (svf_bandpass (car_svf_l ?w ! n) (car_noise_l fl) (band_f v ! n) (band_q v ! n))]"
    by (simp add: band_upd_eq)
  show ?case
    unfolding step
  proof (intro conjI allI)
    fix b
    show "(car_svf_l ?w)[n := fst (svf_bandpass (car_svf_l ?w ! n) (car_noise_l fl) (band_f v ! n) (band_q v ! n))] ! b =
      (if b < Suc n \<and> b < length (car_svf_l v)
       then fst (svf_bandpass (car_svf_l v ! b) (car_noise_l fl) (band_f v ! b) (band_q v ! b))
       else car_svf_l v ! b)"
    proof (cases "b = n")
      case True
      then show ?thesis
        by (cases "n < length (car_svf_l v)") (simp_all add: len nth list_update_beyond)
    next
      case False
      then show ?thesis by (auto simp: nth)
    qed
  qed (simp add: len)
qed

lemma fold_band_upd_car_r:
  "length (car_svf_r (fold (band_upd fl) [0 ..< n] v)) = length (car_svf_r v) \<and>
   (\<forall>b. car_svf_r (fold (band_upd fl) [0 ..< n] v) ! b =
      (if b < n \<and> b < length (car_svf_r v)
       then fst (svf_bandpass (car_svf_r v ! b) (car_noise_r fl) (band_f v ! b) (band_q v ! b))
       else car_svf_r v ! b))"
proof (induction n)
  case 0
  show ?case by simp
next
  case (Suc n)
  let ?w = "fold (band_upd fl) [0 ..< n] v"
  have len: "length (car_svf_r ?w) = length (car_svf_r v)" using Suc by blast
  have nth: "\<And>b. car_svf_r ?w ! b =
      (if b < n \<and> b < length (car_svf_r v)
       then fst (svf_bandpass (car_svf_r v ! b) (car_noise_r fl) (band_f v ! b) (band_q v ! b))
       else car_svf_r v ! b)" using Suc by blast
  have step: "car_svf_r (fold (band_upd fl) [0 ..< Suc n] v) =
      (car_svf_r ?w)[n := fst (svf_bandpass (car_svf_r ?w ! n) (car_noise_r fl) (band_f v ! n) (band_q v ! n))]"
    by (simp add: band_upd_eq)
  show ?case
    unfolding step
  proof (intro conjI allI)
    fix b
    show "(car_svf_r ?w)[n := fst (svf_bandpass (car_svf_r ?w ! n) (car_noise_r fl) (band_f v ! n) (band_q v ! n))] ! b =
      (if b < Suc n \<and> b < length (car_svf_r v)
       then fst (svf_bandpass (car_svf_r v ! b) (car_noise_r fl) (band_f v ! b) (band_q v ! b))
       else car_svf_r v ! b)"
    proof (cases "b = n")
      case True
      then show ?thesis
        by (cases "n < length (car_svf_r v)") (simp_all add: len nth list_update_beyond)
    next
      case False
      then show ?thesis by (auto simp: nth)
    qed
  qed (simp add: len)
qed

lemma noise_sample_eq: "noise_sample seed = (lcg seed, real_of_int (sint (lcg seed)) / 2147483648)"
  by (simp add: noise_sample_def lcg_def Let_def)

lemma process_frame_fst:
  "fst (process_frame bl mic i (v, audio)) =
     fold (band_upd (frame_fl bl mic i v audio)) [0 ..< nat (n_bands bl)] (v\<lparr>noise_seed := lcg (noise_seed v)\<rparr>)"
  by (simp add: process_frame_def Let_def split_beta fold_band_step_fst frame_fl_def noise_sample_eq)

lemma trunc_clamp_range:
  "- 32767 \<le> trunc_int (clampf m (- 1) 1 * 32767) \<and> trunc_int (clampf m (- 1) 1 * 32767) \<le> 32767"
proof -
  have "- 1 \<le> clampf m (- 1) 1" "clampf m (- 1) 1 \<le> 1" by (simp_all add: clampf_def)
  then have "- 32767 \<le> clampf m (- 1) 1 * 32767" "clampf m (- 1) 1 * 32767 \<le> 32767" by simp_all
  then show ?thesis
    unfolding trunc_int_def by (auto simp: le_floor_iff floor_le_iff ceiling_le_iff le_ceiling_iff)
qed

lemma process_frame_snd:
  "\<exists>x y. snd (process_frame bl mic i (v, audio)) = audio[i * 2 := x, i * 2 + 1 := y] \<and>
         is_int16 x \<and> is_int16 y"
proof -
  have h: "\<And>m. is_int16 (trunc_int (clampf m (- 1) 1 * 32767))"
    using trunc_clamp_range unfolding is_int16_def by (smt (verit))
  show ?thesis
    unfolding process_frame_def Let_def split_beta fst_conv snd_conv
    apply (rule exI)+
    apply (intro conjI)
      apply (rule refl)
     apply (rule h)+
    done
qed

lemma process_frame_snd_dry:
  assumes "wet bl = 0" "dry bl = 1"
  shows "snd (process_frame bl mic i (v, audio)) =
     audio[i * 2 := dry_sample (audio ! (i * 2)), i * 2 + 1 := dry_sample (audio ! (i * 2 + 1))]"
  by (simp add: process_frame_def Let_def split_beta assms dry_sample_def)

lemma dry_sample_int16:
  assumes "is_int16 x"
  shows "dry_sample x = x - sgn x"
proof -
  have r: "- 32768 \<le> x" "x \<le> 32767" using assms by (simp_all add: is_int16_def)
  then have c: "clampf (real_of_int x / 32768) (- 1) 1 = real_of_int x / 32768"
    by (simp add: clampf_def)
  consider "x = 0" | "0 < x" | "x < 0" by linarith
  then show ?thesis
  proof cases
    case 1
    then show ?thesis by (simp add: dry_sample_def clampf_def trunc_int_def)
  next
    case 2
    have nn: "0 \<le> real_of_int x / 32768 * 32767" using 2 by simp
    have "\<lfloor>real_of_int x / 32768 * 32767\<rfloor> = x - 1"
      using 2 r by (intro floor_unique) (simp_all add: field_simps)
    then have "trunc_int (real_of_int x / 32768 * 32767) = x - 1"
      using nn by (simp only: trunc_int_def if_True)
    then show ?thesis using 2 by (simp only: dry_sample_def c) simp
  next
    case 3
    have nn: "\<not> 0 \<le> real_of_int x / 32768 * 32767" using 3 by simp
    have "\<lceil>real_of_int x / 32768 * 32767\<rceil> = x + 1"
      using 3 r by (intro ceiling_unique) (simp_all add: field_simps)
    then have "trunc_int (real_of_int x / 32768 * 32767) = x + 1"
      using nn by (simp only: trunc_int_def if_False)
    then show ?thesis using 3 by (simp only: dry_sample_def c) simp
  qed
qed

lemma frames_loop_seed:
  "noise_seed (fst (fold (process_frame bl mic) [0 ..< k] (v, audio))) = (lcg ^^ k) (noise_seed v)"
proof (induction k)
  case 0
  show ?case by simp
next
  case (Suc k)
  obtain w a where s: "fold (process_frame bl mic) [0 ..< k] (v, audio) = (w, a)"
    by (cases "fold (process_frame bl mic) [0 ..< k] (v, audio)") auto
  show ?case using Suc by (simp add: s process_frame_fst)
qed

lemma frames_loop_audio:
  assumes step: "\<And>w a i. \<exists>x y. snd (process_frame bl mic i (w, a)) = a[i * 2 := x, i * 2 + 1 := y] \<and>
                    P (a ! (i * 2)) x \<and> P (a ! (i * 2 + 1)) y"
  shows "length (snd (fold (process_frame bl mic) [0 ..< k] (v, audio))) = length audio \<and>
         (\<forall>j. j < 2 * k \<and> j < length audio \<longrightarrow>
              P (audio ! j) (snd (fold (process_frame bl mic) [0 ..< k] (v, audio)) ! j)) \<and>
         (\<forall>j. 2 * k \<le> j \<longrightarrow> snd (fold (process_frame bl mic) [0 ..< k] (v, audio)) ! j = audio ! j)"
proof (induction k)
  case 0
  show ?case by simp
next
  case (Suc k)
  obtain w a where s: "fold (process_frame bl mic) [0 ..< k] (v, audio) = (w, a)"
    by (cases "fold (process_frame bl mic) [0 ..< k] (v, audio)") auto
  have len: "length a = length audio"
    and old: "\<And>j. j < 2 * k \<Longrightarrow> j < length audio \<Longrightarrow> P (audio ! j) (a ! j)"
    and keep: "\<And>j. 2 * k \<le> j \<Longrightarrow> a ! j = audio ! j"
    using Suc by (simp_all add: s)
  obtain x y where xy: "snd (process_frame bl mic k (w, a)) = a[k * 2 := x, k * 2 + 1 := y]"
    "P (a ! (k * 2)) x" "P (a ! (k * 2 + 1)) y"
    using step by blast
  have res: "snd (fold (process_frame bl mic) [0 ..< Suc k] (v, audio)) = a[k * 2 := x, k * 2 + 1 := y]"
    by (simp add: s xy(1))
  have px: "P (audio ! (k * 2)) x" using xy(2) keep [of "k * 2"] by simp
  have py: "P (audio ! (k * 2 + 1)) y" using xy(3) keep [of "k * 2 + 1"] by simp
  show ?case
    unfolding res
  proof (intro conjI allI impI)
    show "length (a[k * 2 := x, k * 2 + 1 := y]) = length audio" by (simp add: len)
  next
    fix j assume j: "j < 2 * Suc k \<and> j < length audio"
    have "j = k * 2 + 1 \<or> j = k * 2 \<or> j < 2 * k" using j by arith
    then consider "j = k * 2 + 1" | "j = k * 2" | "j < 2 * k" by blast
    then show "P (audio ! j) (a[k * 2 := x, k * 2 + 1 := y] ! j)"
    proof cases
      case 1
      then show ?thesis using j py by (simp add: len)
    next
      case 2
      then show ?thesis using j px by (simp add: len)
    next
      case 3
      then show ?thesis using j old [of j] by simp
    qed
  next
    fix j assume "2 * Suc k \<le> j"
    then show "a[k * 2 := x, k * 2 + 1 := y] ! j = audio ! j"
      using keep [of j] by simp
  qed
qed

lemma process_block_run:
  assumes "2 * nat frames \<le> length audio" "2 * nat frames \<le> length (audio_in host)"
    "nat (bands v) \<le> MAX_BANDS"
  shows "v2_process_block (Some host) (Some v) audio frames =
     Some (Some (fst (fold (process_frame (read_locals v) (audio_in host)) [0 ..< nat frames] (v, audio))),
           snd (fold (process_frame (read_locals v) (audio_in host)) [0 ..< nat frames] (v, audio)))"
  using assms by (simp add: v2_process_block_def split_beta not_less)

lemma process_block_dry:
  assumes "mix v = 0" "2 * nat frames \<le> length audio" "2 * nat frames \<le> length (audio_in host)"
    "nat (bands v) \<le> MAX_BANDS"
  shows "map_option snd (v2_process_block (Some host) (Some v) audio frames) =
     Some (map dry_sample (take (2 * nat frames) audio) @ drop (2 * nat frames) audio)"
proof -
  let ?r = "fold (process_frame (read_locals v) (audio_in host)) [0 ..< nat frames] (v, audio)"
  have wd: "wet (read_locals v) = 0" "dry (read_locals v) = 1"
    using assms(1) by (simp_all add: read_locals_def)
  have step: "\<And>w a i. \<exists>x y. snd (process_frame (read_locals v) (audio_in host) i (w, a)) =
        a[i * 2 := x, i * 2 + 1 := y] \<and> x = dry_sample (a ! (i * 2)) \<and> y = dry_sample (a ! (i * 2 + 1))"
    by (simp add: process_frame_snd_dry [OF wd])
  note loop = frames_loop_audio [where P = "\<lambda>orig new. new = dry_sample orig", OF step,
      of "nat frames" v audio]
  have "snd ?r = map dry_sample (take (2 * nat frames) audio) @ drop (2 * nat frames) audio"
  proof (rule nth_equalityI)
    show "length (snd ?r) = length (map dry_sample (take (2 * nat frames) audio) @ drop (2 * nat frames) audio)"
      using loop assms(2) by simp
  next
    fix j assume "j < length (snd ?r)"
    then have j: "j < length audio" using loop by simp
    show "snd ?r ! j = (map dry_sample (take (2 * nat frames) audio) @ drop (2 * nat frames) audio) ! j"
    proof (cases "j < 2 * nat frames")
      case True
      then show ?thesis using loop j assms(2) by (simp add: nth_append)
    next
      case False
      then show ?thesis using loop j assms(2) by (simp add: nth_append)
    qed
  qed
  then show ?thesis
    by (simp add: process_block_run [OF assms(2,3,4)])
qed

lemma bands_create [simp]: "bands v2_create_instance = 16"
  by (simp add: v2_create_instance_def)

lemma seed_create [simp]: "noise_seed v2_create_instance = 12345"
  by (simp add: v2_create_instance_def)

lemma atof_zero: "atof ''0'' = 0"
  by (simp add: atof_def strip_sign_def isspace_def isdigit_def digit_val_def scale10_def
      parse_exponent_def)

section \<open>Block processing: output samples and noise\<close>

text \<open>
  C3, as the code has it. With \<open>mix = 0\<close> every sample of the frames processed is the
  carrier sample scaled by 32767/32768 and truncated, one step nearer to zero than
  the input (0 stays 0); the samples after the block stay as they are.
\<close>

theorem process_block_mix_zero:
  assumes "mix v = 0"
    and "2 * nat frames \<le> length audio"
    and "2 * nat frames \<le> length (audio_in host)"
    and "nat (bands v) \<le> MAX_BANDS"
    and "list_all is_int16 (take (2 * nat frames) audio)"
  shows "map_option snd (v2_process_block (Some host) (Some v) audio frames) =
           Some (map (\<lambda>x. x - sgn x) (take (2 * nat frames) audio) @ drop (2 * nat frames) audio)"
proof -
  have "\<And>x. x \<in> set (take (2 * nat frames) audio) \<Longrightarrow> dry_sample x = x - sgn x"
    using assms(5) by (simp add: list_all_iff dry_sample_int16)
  then have eq: "map dry_sample (take (2 * nat frames) audio) =
      map (\<lambda>x. x - sgn x) (take (2 * nat frames) audio)"
    by (rule map_cong [OF refl])
  show ?thesis
    unfolding process_block_dry [OF assms(1,2,3,4)] eq ..
qed

theorem process_block_mix_zero_witness:
  "mix (v2_create_instance\<lparr>mix := 0\<rparr>) = 0 \<and>
   2 * nat 1 \<le> length [1000, - 1000 :: int] \<and>
   2 * nat 1 \<le> length (audio_in \<lparr>audio_in = [0, 0]\<rparr>) \<and>
   nat (bands (v2_create_instance\<lparr>mix := 0\<rparr>)) \<le> MAX_BANDS \<and>
   list_all is_int16 (take (2 * nat 1) [1000, - 1000]) \<and>
   map_option snd (v2_process_block (Some \<lparr>audio_in = [0, 0]\<rparr>)
      (Some (v2_create_instance\<lparr>mix := 0\<rparr>)) [1000, - 1000] 1) = Some [999, - 999]"
  using process_block_mix_zero [of "v2_create_instance\<lparr>mix := 0\<rparr>" 1 "[1000, - 1000]" "\<lparr>audio_in = [0, 0]\<rparr>"]
  by (simp add: MAX_BANDS_def is_int16_def)

theorem process_block_mix_zero_counterexample:
  "v2_set_param (Some v2_create_instance) ''mix'' ''0'' = Some (v2_create_instance\<lparr>mix := 0\<rparr>) \<and>
   map_option snd (v2_process_block (Some \<lparr>audio_in = [0, 0]\<rparr>)
      (Some (v2_create_instance\<lparr>mix := 0\<rparr>)) [1, - 1] 1) = Some [0, 0] \<and>
   map_option snd (v2_process_block (Some \<lparr>audio_in = [0, 0]\<rparr>)
      (Some (v2_create_instance\<lparr>mix := 0\<rparr>)) [1, - 1] 1) \<noteq> Some [1, - 1]"
proof -
  have a: "v2_set_param (Some v2_create_instance) ''mix'' ''0'' = Some (v2_create_instance\<lparr>mix := 0\<rparr>)"
    by (simp add: atof_zero clampf_def)
  have b: "map_option snd (v2_process_block (Some \<lparr>audio_in = [0, 0]\<rparr>)
      (Some (v2_create_instance\<lparr>mix := 0\<rparr>)) [1, - 1] 1) =
      Some (map dry_sample (take (2 * nat 1) [1, - 1]) @ drop (2 * nat 1) [1, - 1])"
    by (rule process_block_dry) (simp_all add: MAX_BANDS_def)
  have c: "dry_sample 1 = 0" "dry_sample (- 1) = 0"
    by (simp_all add: dry_sample_def clampf_def trunc_int_def)
  have d: "map_option snd (v2_process_block (Some \<lparr>audio_in = [0, 0]\<rparr>)
      (Some (v2_create_instance\<lparr>mix := 0\<rparr>)) [1, - 1] 1) = Some [0, 0]"
    unfolding b by (simp add: c)
  show ?thesis unfolding d using a by simp
qed

text \<open>
  C5. Whatever the parameters, the buffers and the state, each sample a block writes
  lies within the signed 16-bit range, because the mixed value is clamped to \<open>[-1, 1]\<close>
  before it is scaled by 32767 and truncated; frame \<open>i\<close> writes positions \<open>2i\<close> and
  \<open>2i + 1\<close> of the carrier buffer and no other, and the buffer keeps its length.
\<close>

theorem process_block_int16:
  assumes "2 * nat frames \<le> length audio"
    and "2 * nat frames \<le> length (audio_in host)"
    and "nat (bands v) \<le> MAX_BANDS"
  shows "\<exists>v' out. v2_process_block (Some host) (Some v) audio frames = Some (Some v', out) \<and>
           length out = length audio \<and>
           (\<forall>j. j < 2 * nat frames \<longrightarrow> - 32768 \<le> out ! j \<and> out ! j \<le> 32767) \<and>
           (\<forall>j. 2 * nat frames \<le> j \<longrightarrow> out ! j = audio ! j) \<and>
           (\<forall>m. - 32768 \<le> trunc_int (clampf m (- 1) 1 * 32767) \<and>
                trunc_int (clampf m (- 1) 1 * 32767) \<le> 32767) \<and>
           (\<forall>bl mic i w a j. j \<noteq> i * 2 \<and> j \<noteq> i * 2 + 1 \<longrightarrow>
                snd (process_frame bl mic i (w, a)) ! j = a ! j)"
proof -
  let ?r = "fold (process_frame (read_locals v) (audio_in host)) [0 ..< nat frames] (v, audio)"
  have step: "\<And>w a i. \<exists>x y. snd (process_frame (read_locals v) (audio_in host) i (w, a)) =
        a[i * 2 := x, i * 2 + 1 := y] \<and> is_int16 x \<and> is_int16 y"
    by (rule process_frame_snd)
  note loop = frames_loop_audio [where P = "\<lambda>orig new. is_int16 new", OF step, of "nat frames" v audio]
  have 1: "length (snd ?r) = length audio" using loop by blast
  have 2: "\<forall>j. j < 2 * nat frames \<longrightarrow> - 32768 \<le> snd ?r ! j \<and> snd ?r ! j \<le> 32767"
    using loop assms(1) by (simp add: is_int16_def)
  have 3: "\<forall>j. 2 * nat frames \<le> j \<longrightarrow> snd ?r ! j = audio ! j" using loop by blast
  have 4: "\<forall>m. - 32768 \<le> trunc_int (clampf m (- 1) 1 * 32767) \<and>
                trunc_int (clampf m (- 1) 1 * 32767) \<le> 32767"
    using trunc_clamp_range by (smt (verit))
  have 5: "\<forall>bl mic i w a j. j \<noteq> i * 2 \<and> j \<noteq> i * 2 + 1 \<longrightarrow>
                snd (process_frame bl mic i (w, a)) ! j = a ! j"
  proof (intro allI impI)
    fix bl mic and i :: nat and w a and j :: nat
    assume j: "j \<noteq> i * 2 \<and> j \<noteq> i * 2 + 1"
    obtain x y where "snd (process_frame bl mic i (w, a)) = a[i * 2 := x, i * 2 + 1 := y]"
      using process_frame_snd by blast
    then show "snd (process_frame bl mic i (w, a)) ! j = a ! j" using j by simp
  qed
  show ?thesis
    using process_block_run [OF assms] 1 2 3 4 5 by blast
qed

theorem process_block_int16_witness:
  "2 * nat 1 \<le> length [32767, - 32768 :: int] \<and>
   2 * nat 1 \<le> length (audio_in \<lparr>audio_in = [32767, 32767]\<rparr>) \<and>
   nat (bands v2_create_instance) \<le> MAX_BANDS \<and>
   (\<exists>v' out. v2_process_block (Some \<lparr>audio_in = [32767, 32767]\<rparr>) (Some v2_create_instance)
        [32767, - 32768] 1 = Some (Some v', out) \<and>
      length out = 2 \<and> - 32768 \<le> out ! 0 \<and> out ! 0 \<le> 32767 \<and> - 32768 \<le> out ! 1 \<and> out ! 1 \<le> 32767)"
proof -
  have h: "2 * nat 1 \<le> length [32767, - 32768 :: int]"
    "2 * nat 1 \<le> length (audio_in \<lparr>audio_in = [32767, 32767]\<rparr>)"
    "nat (bands v2_create_instance) \<le> MAX_BANDS"
    by (simp_all add: MAX_BANDS_def)
  obtain v' out where r: "v2_process_block (Some \<lparr>audio_in = [32767, 32767]\<rparr>) (Some v2_create_instance)
        [32767, - 32768] 1 = Some (Some v', out)"
    "length out = length [32767, - 32768 :: int]"
    "\<forall>j. j < 2 * nat 1 \<longrightarrow> - 32768 \<le> out ! j \<and> out ! j \<le> 32767"
    using process_block_int16 [OF h] by blast
  have "- 32768 \<le> out ! 0 \<and> out ! 0 \<le> 32767" "- 32768 \<le> out ! 1 \<and> out ! 1 \<le> 32767"
    using r(3) by simp_all
  then show ?thesis using h r(1,2) by simp
qed



section \<open>Coefficients and the envelope follower\<close>

lemma recalc_band_eq:
  "recalc_band (ln (freq_low v)) (ln (freq_high v)) (bands v) i w =
     w\<lparr>band_f := (band_f w)[i := band_coeff v i],
       band_q := (band_q w)[i := 1 / (1 + 0.5 * sqrt (real_of_int (bands v)))]\<rparr>"
  by (simp add: recalc_band_def band_coeff_def Let_def)

lemma fold_recalc_band_f:
  "length (band_f (fold (recalc_band (ln (freq_low v)) (ln (freq_high v)) (bands v)) [0 ..< n] w)) =
     length (band_f w) \<and>
   (\<forall>i. band_f (fold (recalc_band (ln (freq_low v)) (ln (freq_high v)) (bands v)) [0 ..< n] w) ! i =
      (if i < n \<and> i < length (band_f w) then band_coeff v i else band_f w ! i))"
proof (induction n)
  case 0
  show ?case by simp
next
  case (Suc n)
  let ?u = "fold (recalc_band (ln (freq_low v)) (ln (freq_high v)) (bands v)) [0 ..< n] w"
  have len: "length (band_f ?u) = length (band_f w)" using Suc by blast
  have nth: "\<And>i. band_f ?u ! i = (if i < n \<and> i < length (band_f w) then band_coeff v i else band_f w ! i)"
    using Suc by blast
  have step: "band_f (fold (recalc_band (ln (freq_low v)) (ln (freq_high v)) (bands v)) [0 ..< Suc n] w) =
      (band_f ?u)[n := band_coeff v n]"
    by (simp add: recalc_band_eq)
  show ?case
    unfolding step
  proof (intro conjI allI)
    fix i
    show "(band_f ?u)[n := band_coeff v n] ! i =
      (if i < Suc n \<and> i < length (band_f w) then band_coeff v i else band_f w ! i)"
    proof (cases "i = n")
      case True
      then show ?thesis
        by (cases "n < length (band_f w)") (simp_all add: len nth list_update_beyond)
    next
      case False
      then show ?thesis by (auto simp: nth)
    qed
  qed (simp add: len)
qed

lemma band_f_recalc:
  "band_f (recalc_bands v) ! i =
     (if i < nat (bands v) \<and> i < length (band_f v) then band_coeff v i else band_f v ! i)"
  using fold_recalc_band_f [of v "nat (bands v)" v]
  by (simp add: recalc_bands_def Let_def)

lemma length_band_f_recalc [simp]: "length (band_f (recalc_bands v)) = length (band_f v)"
  using fold_recalc_band_f [of v "nat (bands v)" v]
  by (simp add: recalc_bands_def Let_def)

lemma env_coeffs_recalc:
  "att_coeff (recalc_bands v) = env_coeff (attack_ms v)"
  "rel_coeff (recalc_bands v) = env_coeff (release_ms v)"
proof -
  obtain F Q where fq: "fold (recalc_band (ln (freq_low v)) (ln (freq_high v)) (bands v)) [0 ..< nat (bands v)] v =
      v\<lparr>band_f := F, band_q := Q\<rparr>"
    using fold_recalc_band_frame by blast
  show "att_coeff (recalc_bands v) = env_coeff (attack_ms v)"
    "rel_coeff (recalc_bands v) = env_coeff (release_ms v)"
    unfolding recalc_bands_def Let_def fq env_coeff_def by simp_all
qed

lemma env_coeff_range: "0 < env_coeff ms \<and> env_coeff ms < 1"
proof -
  have "0 < (if ms < 0.1 then 0.1 else ms) * 0.001 * SAMPLE_RATE"
    by (simp add: SAMPLE_RATE_def)
  then have "- 1 / ((if ms < 0.1 then 0.1 else ms) * 0.001 * SAMPLE_RATE) < 0"
    by (simp add: field_simps)
  then have "exp (- 1 / ((if ms < 0.1 then 0.1 else ms) * 0.001 * SAMPLE_RATE)) < 1"
    by (simp only: exp_less_one_iff)
  moreover have "0 < exp (- 1 / ((if ms < 0.1 then 0.1 else ms) * 0.001 * SAMPLE_RATE))"
    by (rule exp_gt_zero)
  ultimately show ?thesis unfolding env_coeff_def by linarith
qed

lemma env_follow_between:
  assumes "0 < a" "a < 1" "0 < r" "r < 1"
  shows "min (level e) \<bar>x\<bar> \<le> level (fst (env_follow e x a r)) \<and>
         level (fst (env_follow e x a r)) \<le> max (level e) \<bar>x\<bar>"
proof (cases "\<bar>x\<bar> > level e")
  case True
  have eq: "level (fst (env_follow e x a r)) = level e + a * (\<bar>x\<bar> - level e)"
    using True by (simp add: env_follow_def Let_def)
  have "a * (\<bar>x\<bar> - level e) \<le> \<bar>x\<bar> - level e"
    using assms True by (intro mult_left_le_one_le) simp_all
  moreover have "0 \<le> a * (\<bar>x\<bar> - level e)" using assms True by simp
  ultimately show ?thesis unfolding eq using True by linarith
next
  case False
  have eq: "level (fst (env_follow e x a r)) = level e - r * (level e - \<bar>x\<bar>)"
    using False by (simp add: env_follow_def Let_def algebra_simps)
  have "r * (level e - \<bar>x\<bar>) \<le> level e - \<bar>x\<bar>"
    using assms False by (intro mult_left_le_one_le) simp_all
  moreover have "0 \<le> r * (level e - \<bar>x\<bar>)" using assms False by simp
  ultimately show ?thesis unfolding eq using False by linarith
qed

lemma env_follow_snd: "snd (env_follow e x a r) = level (fst (env_follow e x a r))"
  by (simp add: env_follow_def Let_def)

lemma env_run_bounds:
  assumes "0 < a" "a < 1" "0 < r" "r < 1" "0 \<le> level e"
  shows "0 \<le> level (fold (\<lambda>x e. fst (env_follow e x a r)) xs e) \<and>
         level (fold (\<lambda>x e. fst (env_follow e x a r)) xs e) \<le> Max (insert (level e) (abs ` set xs))"
  using assms(5)
proof (induction xs arbitrary: e)
  case Nil
  then show ?case by simp
next
  case (Cons x xs)
  let ?e = "fst (env_follow e x a r)"
  have b: "min (level e) \<bar>x\<bar> \<le> level ?e" "level ?e \<le> max (level e) \<bar>x\<bar>"
    using env_follow_between [OF assms(1-4)] by blast+
  have nn: "0 \<le> level ?e" using b(1) Cons.prems by simp
  have ih: "0 \<le> level (fold (\<lambda>x e. fst (env_follow e x a r)) xs ?e)"
    "level (fold (\<lambda>x e. fst (env_follow e x a r)) xs ?e) \<le> Max (insert (level ?e) (abs ` set xs))"
    using Cons.IH [OF nn] by blast+
  have "Max (insert (level ?e) (abs ` set xs)) \<le> Max (insert (level e) (abs ` set (x # xs)))"
  proof (rule Max.boundedI)
    fix y assume "y \<in> insert (level ?e) (abs ` set xs)"
    then consider "y = level ?e" | "y \<in> abs ` set xs" by blast
    then show "y \<le> Max (insert (level e) (abs ` set (x # xs)))"
    proof cases
      case 1
      have "level e \<le> Max (insert (level e) (abs ` set (x # xs)))" by (intro Max_ge) simp_all
      moreover have "\<bar>x\<bar> \<le> Max (insert (level e) (abs ` set (x # xs)))" by (intro Max_ge) simp_all
      ultimately show ?thesis using 1 b(2) by simp
    next
      case 2
      then show ?thesis by (intro Max_ge) auto
    qed
  qed simp_all
  note le = this
  have fe: "fold (\<lambda>x e. fst (env_follow e x a r)) (x # xs) e =
      fold (\<lambda>x e. fst (env_follow e x a r)) xs ?e"
    by simp
  show ?case
    unfolding fe
  proof (intro conjI)
    show "0 \<le> level (fold (\<lambda>x e. fst (env_follow e x a r)) xs ?e)" by (rule ih(1))
    show "level (fold (\<lambda>x e. fst (env_follow e x a r)) xs ?e) \<le>
        Max (insert (level e) (abs ` set (x # xs)))"
      by (rule order_trans [OF ih(2) le])
  qed
qed

text \<open>
  C10. The attack and release coefficients that \<open>recalc_bands\<close> computes lie strictly
  between 0 and 1, and with them the level of an envelope follower that starts at
  zero is, after any sequence of inputs, at least 0 and at most the largest
  rectified input of the sequence (0 when the sequence is empty); the value
  \<open>env_follow\<close> returns is the stored level.
\<close>

theorem env_follow_level_bounds:
  "0 < att_coeff (recalc_bands v) \<and> att_coeff (recalc_bands v) < 1 \<and>
   0 < rel_coeff (recalc_bands v) \<and> rel_coeff (recalc_bands v) < 1 \<and>
   0 \<le> level (fold (\<lambda>x e. fst (env_follow e x (att_coeff (recalc_bands v)) (rel_coeff (recalc_bands v))))
                 xs env_zero) \<and>
   level (fold (\<lambda>x e. fst (env_follow e x (att_coeff (recalc_bands v)) (rel_coeff (recalc_bands v))))
            xs env_zero) \<le> Max (insert 0 (abs ` set xs)) \<and>
   snd (env_follow e x (att_coeff (recalc_bands v)) (rel_coeff (recalc_bands v))) =
     level (fst (env_follow e x (att_coeff (recalc_bands v)) (rel_coeff (recalc_bands v)))) \<and>
   level env_zero = 0"
proof -
  have c: "0 < att_coeff (recalc_bands v)" "att_coeff (recalc_bands v) < 1"
    "0 < rel_coeff (recalc_bands v)" "rel_coeff (recalc_bands v) < 1"
    using env_coeff_range by (simp_all add: env_coeffs_recalc)
  have z: "level env_zero = 0" by (simp add: env_zero_def)
  have "0 \<le> level env_zero" by (simp add: z)
  from env_run_bounds [OF c this, of xs] c z env_follow_snd show ?thesis by simp
qed

section \<open>Parameter setting\<close>

text \<open>
  C9. Setting \<open>mod_gain\<close>, \<open>mix\<close> or \<open>carrier_mix\<close> changes that one field, to the
  clamped value, and setting a key the plugin does not know changes nothing: the
  filter and envelope arrays, the coefficients, the noise seed and every other
  parameter stay as they are.
\<close>

theorem set_param_frame:
  assumes "key = ''mod_gain'' \<or> key = ''mix'' \<or> key = ''carrier_mix'' \<or> key \<notin> set known_keys"
  shows "\<exists>v'. v2_set_param (Some v) key val = Some v' \<and>
           mod_svf_l v' = mod_svf_l v \<and> mod_svf_r v' = mod_svf_r v \<and>
           car_svf_l v' = car_svf_l v \<and> car_svf_r v' = car_svf_r v \<and>
           mod_env_l v' = mod_env_l v \<and> mod_env_r v' = mod_env_r v \<and>
           band_f v' = band_f v \<and> band_q v' = band_q v \<and>
           att_coeff v' = att_coeff v \<and> rel_coeff v' = rel_coeff v \<and>
           noise_seed v' = noise_seed v \<and>
           bands v' = bands v \<and> freq_low v' = freq_low v \<and> freq_high v' = freq_high v \<and>
           attack_ms v' = attack_ms v \<and> release_ms v' = release_ms v \<and>
           mod_gain v' = (if key = ''mod_gain'' then clampf (atof val) 0 3 else mod_gain v) \<and>
           mix v' = (if key = ''mix'' then clampf (atof val) 0 1 else mix v) \<and>
           carrier_mix v' = (if key = ''carrier_mix'' then clampf (atof val) 0 1 else carrier_mix v)"
  using assms by (auto simp: known_keys_def Let_def)

theorem set_param_frame_witness:
  "\<exists>v'. v2_set_param (Some v2_create_instance) ''mix'' ''0.25'' = Some v' \<and>
      mix v' = 1 / 4 \<and> mod_gain v' = mod_gain v2_create_instance \<and>
      noise_seed v' = 12345 \<and> bands v' = 16 \<and> car_svf_l v' = car_svf_l v2_create_instance"
proof -
  have h: "''mix'' = ''mod_gain'' \<or> ''mix'' = ''mix'' \<or> ''mix'' = ''carrier_mix'' \<or> ''mix'' \<notin> set known_keys"
    by simp
  have a: "atof ''0.25'' = 1 / 4"
    by (simp add: atof_def strip_sign_def isspace_def isdigit_def digit_val_def scale10_def
        parse_exponent_def)
  obtain v' where "v2_set_param (Some v2_create_instance) ''mix'' ''0.25'' = Some v'"
    "mix v' = (if ''mix'' = ''mix'' then clampf (atof ''0.25'') 0 1 else mix v2_create_instance)"
    "mod_gain v' = (if ''mix'' = ''mod_gain'' then clampf (atof ''0.25'') 0 3 else mod_gain v2_create_instance)"
    "noise_seed v' = noise_seed v2_create_instance" "bands v' = bands v2_create_instance"
    "car_svf_l v' = car_svf_l v2_create_instance"
    using set_param_frame [OF h, of v2_create_instance "''0.25''"] by blast
  then show ?thesis
    by (auto simp: a clampf_def)
qed

lemma process_frame_params [simp]:
  "freq_low (fst (process_frame bl mic i (v, a))) = freq_low v"
  "freq_high (fst (process_frame bl mic i (v, a))) = freq_high v"
  "bands (fst (process_frame bl mic i (v, a))) = bands v"
  by (simp_all add: process_frame_fst)

lemma create_fields [simp]:
  "freq_low v2_create_instance = 100"
  "freq_high v2_create_instance = 8000"
  "carrier_mix v2_create_instance = 1 / 10"
  "car_svf_l v2_create_instance = replicate MAX_BANDS svf_zero"
  "length (band_f v2_create_instance) = MAX_BANDS"
  by (simp_all add: v2_create_instance_def calloc_instance_def)

lemma band_f_create_0: "0 < band_f v2_create_instance ! 0"
proof -
  let ?d = "calloc_instance\<lparr>bands := 16, freq_low := 100, freq_high := 8000,
          attack_ms := 5, release_ms := 50, mod_gain := 1, mix := 1,
          carrier_mix := 0.1, noise_seed := 12345\<rparr>"
  have "band_f v2_create_instance ! 0 = band_coeff ?d 0"
    unfolding v2_create_instance_def
    by (subst band_f_recalc) (simp add: calloc_instance_def MAX_BANDS_def)
  also have "\<dots> = (if 2 * sin (pi * 100 / 44100) > 1 then 1 else 2 * sin (pi * 100 / 44100))"
    by (simp add: band_coeff_def SAMPLE_RATE_def Let_def)
  finally have e: "band_f v2_create_instance ! 0 =
      (if 2 * sin (pi * 100 / 44100) > 1 then 1 else 2 * sin (pi * 100 / 44100))" .
  have "0 < pi * 100 / 44100" by simp
  moreover have "pi * 100 / 44100 < pi" by simp
  ultimately have "0 < sin (pi * 100 / 44100)" by (rule sin_gt_zero)
  then show ?thesis unfolding e by simp
qed

lemma played_car_band: "band (car_svf_l played_instance ! 0) \<noteq> 0"
proof -
  let ?bl = "read_locals v2_create_instance"
  let ?fl = "frame_fl ?bl [0, 0] 0 v2_create_instance [16384, 16384]"
  let ?w0 = "v2_create_instance\<lparr>noise_seed := lcg (noise_seed v2_create_instance)\<rparr>"
  have u: "[0 ..< 1] = [0::nat]" by simp
  have p: "played_instance = fold (band_upd ?fl) [0 ..< nat (n_bands ?bl)] ?w0"
    unfolding played_instance_def u by (simp add: process_frame_fst)
  have n: "nat (n_bands ?bl) = 16" by (simp add: read_locals_def)
  have "car_svf_l played_instance ! 0 =
      fst (svf_bandpass (car_svf_l ?w0 ! 0) (car_noise_l ?fl) (band_f ?w0 ! 0) (band_q ?w0 ! 0))"
    unfolding p n using fold_band_upd_car_l [of ?fl 16 ?w0] by (simp add: MAX_BANDS_def)
  then have b: "band (car_svf_l played_instance ! 0) = band_f v2_create_instance ! 0 * car_noise_l ?fl"
    by (simp add: svf_bandpass_def Let_def MAX_BANDS_def svf_zero_def)
  have "car_noise_l ?fl = 1 / 2 + 87628868 / 2147483648 * (1 / 10)"
    by (simp add: frame_fl_def noise_sample_eq lcg_def read_locals_def)
  then have "0 < car_noise_l ?fl" by simp
  then show ?thesis unfolding b using band_f_create_0 by simp
qed

lemma atof_200: "atof ''200'' = 200"
  by (simp add: atof_def strip_sign_def isspace_def isdigit_def digit_val_def scale10_def
      parse_exponent_def)




section \<open>State restore and parameter queries\<close>

lemma strstr_None_iff: "strstr s pat = None \<longleftrightarrow> \<not> (\<exists>a b. s = a @ pat @ b)"
proof (induction s)
  case Nil
  show ?case by auto
next
  case (Cons c cs)
  show ?case
  proof (cases "take (length pat) (c # cs) = pat")
    case True
    then have "c # cs = [] @ pat @ drop (length pat) (c # cs)"
      by (metis append_Nil append_take_drop_id)
    then have "\<exists>a b. c # cs = a @ pat @ b" by blast
    then show ?thesis using True by simp
  next
    case False
    have "(\<exists>a b. c # cs = a @ pat @ b) \<longleftrightarrow> (\<exists>a b. cs = a @ pat @ b)"
    proof
      assume "\<exists>a b. c # cs = a @ pat @ b"
      then obtain a b where ab: "c # cs = a @ pat @ b" by blast
      show "\<exists>a b. cs = a @ pat @ b"
      proof (cases a)
        case Nil
        then have "take (length pat) (c # cs) = pat" using ab by simp
        then show ?thesis using False by simp
      next
        case (Cons x xs)
        then have "cs = xs @ pat @ b" using ab by simp
        then show ?thesis by blast
      qed
    next
      assume "\<exists>a b. cs = a @ pat @ b"
      then obtain a b where "cs = a @ pat @ b" by blast
      then have "c # cs = (c # a) @ pat @ b" by simp
      then show "\<exists>a b. c # cs = a @ pat @ b" by blast
    qed
    then show ?thesis using False Cons.IH by simp
  qed
qed

lemma json_get_float_None_iff:
  "json_get_float val key = None \<longleftrightarrow> \<not> (\<exists>a b. val = a @ json_search key @ b)"
  using strstr_None_iff [of val "json_search key"]
  by (cases "strstr val (json_search key)") (simp_all add: json_get_float_def)

lemma json_get_int_None_iff:
  "json_get_int val key = None \<longleftrightarrow> \<not> (\<exists>a b. val = a @ json_search key @ b)"
  using strstr_None_iff [of val "json_search key"]
  by (cases "strstr val (json_search key)") (simp_all add: json_get_int_def)

lemma opt_upd:
  "(case x of Some iv \<Rightarrow> w\<lparr>bands := gi iv\<rparr> | None \<Rightarrow> w) =
     w\<lparr>bands := (case x of Some iv \<Rightarrow> gi iv | None \<Rightarrow> bands w)\<rparr>"
  "(case y of Some fv \<Rightarrow> w\<lparr>freq_low := g fv\<rparr> | None \<Rightarrow> w) =
     w\<lparr>freq_low := (case y of Some fv \<Rightarrow> g fv | None \<Rightarrow> freq_low w)\<rparr>"
  "(case y of Some fv \<Rightarrow> w\<lparr>freq_high := g fv\<rparr> | None \<Rightarrow> w) =
     w\<lparr>freq_high := (case y of Some fv \<Rightarrow> g fv | None \<Rightarrow> freq_high w)\<rparr>"
  "(case y of Some fv \<Rightarrow> w\<lparr>attack_ms := g fv\<rparr> | None \<Rightarrow> w) =
     w\<lparr>attack_ms := (case y of Some fv \<Rightarrow> g fv | None \<Rightarrow> attack_ms w)\<rparr>"
  "(case y of Some fv \<Rightarrow> w\<lparr>release_ms := g fv\<rparr> | None \<Rightarrow> w) =
     w\<lparr>release_ms := (case y of Some fv \<Rightarrow> g fv | None \<Rightarrow> release_ms w)\<rparr>"
  "(case y of Some fv \<Rightarrow> w\<lparr>mod_gain := g fv\<rparr> | None \<Rightarrow> w) =
     w\<lparr>mod_gain := (case y of Some fv \<Rightarrow> g fv | None \<Rightarrow> mod_gain w)\<rparr>"
  "(case y of Some fv \<Rightarrow> w\<lparr>mix := g fv\<rparr> | None \<Rightarrow> w) =
     w\<lparr>mix := (case y of Some fv \<Rightarrow> g fv | None \<Rightarrow> mix w)\<rparr>"
  "(case y of Some fv \<Rightarrow> w\<lparr>carrier_mix := g fv\<rparr> | None \<Rightarrow> w) =
     w\<lparr>carrier_mix := (case y of Some fv \<Rightarrow> g fv | None \<Rightarrow> carrier_mix w)\<rparr>"
  by (cases x; cases y; simp)+

lemma set_state_fields_eq:
  "set_state_fields v val =
     v\<lparr>bands := (case json_get_int val ''bands'' of
                    Some iv \<Rightarrow> snap_bands (clampi iv 8 32) | None \<Rightarrow> bands v),
       freq_low := (case json_get_float val ''freq_low'' of
                    Some fv \<Rightarrow> clampf fv 80 500 | None \<Rightarrow> freq_low v),
       freq_high := (case json_get_float val ''freq_high'' of
                    Some fv \<Rightarrow> clampf fv 2000 12000 | None \<Rightarrow> freq_high v),
       attack_ms := (case json_get_float val ''attack'' of
                    Some fv \<Rightarrow> clampf fv 0.1 50 | None \<Rightarrow> attack_ms v),
       release_ms := (case json_get_float val ''release'' of
                    Some fv \<Rightarrow> clampf fv 5 500 | None \<Rightarrow> release_ms v),
       mod_gain := (case json_get_float val ''mod_gain'' of
                    Some fv \<Rightarrow> clampf fv 0 3 | None \<Rightarrow> mod_gain v),
       mix := (case json_get_float val ''mix'' of
                    Some fv \<Rightarrow> clampf fv 0 1 | None \<Rightarrow> mix v),
       carrier_mix := (case json_get_float val ''carrier_mix'' of
                    Some fv \<Rightarrow> clampf fv 0 1 | None \<Rightarrow> carrier_mix v)\<rparr>"
  unfolding set_state_fields_def Let_def opt_upd by (simp cong: option.case_cong)

lemma set_state_fields_sel [simp]:
  "bands (set_state_fields v val) = (case json_get_int val ''bands'' of
                    Some iv \<Rightarrow> snap_bands (clampi iv 8 32) | None \<Rightarrow> bands v)"
  "freq_low (set_state_fields v val) = (case json_get_float val ''freq_low'' of
                    Some fv \<Rightarrow> clampf fv 80 500 | None \<Rightarrow> freq_low v)"
  "freq_high (set_state_fields v val) = (case json_get_float val ''freq_high'' of
                    Some fv \<Rightarrow> clampf fv 2000 12000 | None \<Rightarrow> freq_high v)"
  "attack_ms (set_state_fields v val) = (case json_get_float val ''attack'' of
                    Some fv \<Rightarrow> clampf fv 0.1 50 | None \<Rightarrow> attack_ms v)"
  "release_ms (set_state_fields v val) = (case json_get_float val ''release'' of
                    Some fv \<Rightarrow> clampf fv 5 500 | None \<Rightarrow> release_ms v)"
  "mod_gain (set_state_fields v val) = (case json_get_float val ''mod_gain'' of
                    Some fv \<Rightarrow> clampf fv 0 3 | None \<Rightarrow> mod_gain v)"
  "mix (set_state_fields v val) = (case json_get_float val ''mix'' of
                    Some fv \<Rightarrow> clampf fv 0 1 | None \<Rightarrow> mix v)"
  "carrier_mix (set_state_fields v val) = (case json_get_float val ''carrier_mix'' of
                    Some fv \<Rightarrow> clampf fv 0 1 | None \<Rightarrow> carrier_mix v)"
  "band_f (set_state_fields v val) = band_f v"
  "band_q (set_state_fields v val) = band_q v"
  "noise_seed (set_state_fields v val) = noise_seed v"
  by (simp_all add: set_state_fields_eq)

lemma band_coeff_cong:
  "bands a = bands b \<Longrightarrow> freq_low a = freq_low b \<Longrightarrow> freq_high a = freq_high b \<Longrightarrow>
   band_coeff a i = band_coeff b i"
  by (simp add: band_coeff_def)

lemma clear_filters_fields [simp]:
  "bands (clear_filters v) = bands v"
  "freq_low (clear_filters v) = freq_low v"
  "freq_high (clear_filters v) = freq_high v"
  "attack_ms (clear_filters v) = attack_ms v"
  "release_ms (clear_filters v) = release_ms v"
  "mod_gain (clear_filters v) = mod_gain v"
  "mix (clear_filters v) = mix v"
  "carrier_mix (clear_filters v) = carrier_mix v"
  "band_f (clear_filters v) = band_f v"
  "band_q (clear_filters v) = band_q v"
  "noise_seed (clear_filters v) = noise_seed v"
  "mod_svf_l (clear_filters v) = replicate MAX_BANDS svf_zero"
  "mod_svf_r (clear_filters v) = replicate MAX_BANDS svf_zero"
  "car_svf_l (clear_filters v) = replicate MAX_BANDS svf_zero"
  "car_svf_r (clear_filters v) = replicate MAX_BANDS svf_zero"
  "mod_env_l (clear_filters v) = replicate MAX_BANDS env_zero"
  "mod_env_r (clear_filters v) = replicate MAX_BANDS env_zero"
  by (simp_all add: clear_filters_def)

lemma set_state_fields_rebuild:
  "set_state_fields v val =
     v\<lparr>bands := bands (set_state_fields v val), freq_low := freq_low (set_state_fields v val),
       freq_high := freq_high (set_state_fields v val), attack_ms := attack_ms (set_state_fields v val),
       release_ms := release_ms (set_state_fields v val), mod_gain := mod_gain (set_state_fields v val),
       mix := mix (set_state_fields v val), carrier_mix := carrier_mix (set_state_fields v val)\<rparr>"
  unfolding set_state_fields_sel by (rule set_state_fields_eq)


lemma partial_state_gets:
  "json_get_int partial_state_text ''bands'' = None"
  "json_get_float partial_state_text ''freq_low'' = None"
  "json_get_float partial_state_text ''freq_high'' = None"
  "json_get_float partial_state_text ''attack'' = Some 0"
  "json_get_float partial_state_text ''release'' = None"
  "json_get_float partial_state_text ''mod_gain'' = None"
  "json_get_float partial_state_text ''mix'' = Some (1 / 4)"
  "json_get_float partial_state_text ''carrier_mix'' = None"
  by (simp_all add: partial_state_text_def json_get_int_def json_get_float_def json_search_def
      skip_blanks_def atof_def strip_sign_def isspace_def isdigit_def digit_val_def scale10_def
      parse_exponent_def)


text \<open>
  C2, where the code departs from it. With a buffer too small for the text, the keys
  answered through \<open>snprintf\<close> return the length of the whole text, not \<open>-1\<close>: the
  band count 16 queried with a one-byte buffer returns 2 and stores the empty
  string, and the name queried with four bytes returns 7 and stores \<open>Voc\<close>. The two
  descriptor keys and an unknown key do return \<open>-1\<close>.
\<close>

theorem get_param_small_buffer:
  "v2_get_param (Some v2_create_instance) ''bands'' [] 1 = (2, []) \<and>
   v2_get_param (Some v2_create_instance) ''name'' [] 4 = (7, ''Voc'') \<and>
   v2_get_param (Some v2_create_instance) ''ui_hierarchy'' [] 4 = (- 1, []) \<and>
   v2_get_param (Some v2_create_instance) ''chain_params'' [] 4 = (- 1, []) \<and>
   v2_get_param (Some v2_create_instance) ''no_such_key'' [] 4 = (- 1, [])"
proof -
  have f: "fmt_d 16 = ''16''"
    by (simp add: fmt_d_def nat_digits.simps digit_char_def)
  have h: "length hierarchy = 233" by (simp add: hierarchy_def)
  have p: "length params_json = 789" by (simp add: params_json_def)
  show ?thesis
    by (simp add: snprintf_def f h p)
qed

section \<open>State text round trip\<close>

lemma length_pad_digits [simp]: "length (pad_digits d n) = d"
  by (induction d arbitrary: n) simp_all

lemma digits_pad_digits [simp]: "digits (pad_digits d n)"
  by (induction d arbitrary: n) (auto simp: digits_def isdigit_digit_char)

lemma digits_val_pad_digits: "digits_val acc (pad_digits d n) = acc * 10 ^ d + n mod 10 ^ d"
proof (induction d arbitrary: n acc)
  case 0
  show ?case by simp
next
  case (Suc d)
  have "digits_val acc (pad_digits (Suc d) n) =
      10 * digits_val acc (pad_digits d (n div 10)) + n mod 10"
    by (simp add: digits_val_append digit_val_digit_char)
  also have "\<dots> = 10 * (acc * 10 ^ d + (n div 10) mod 10 ^ d) + n mod 10"
    by (simp add: Suc.IH)
  also have "\<dots> = acc * 10 ^ Suc d + (10 * ((n div 10) mod 10 ^ d) + n mod 10)"
    by (simp add: algebra_simps)
  also have "10 * ((n div 10) mod 10 ^ d) + n mod 10 = n mod 10 ^ Suc d"
    by (simp add: mod_mult2_eq)
  finally show ?case .
qed

lemma atof_fmt_f:
  assumes "0 \<le> x" "stops_f rest"
  shows "atof (fmt_f d x @ rest) = real_of_int (round_half_even (x * 10 ^ d)) / 10 ^ d"
proof -
  define r where "r = nat (round_half_even (\<bar>x\<bar> * 10 ^ d))"
  have t: "fmt_f d x @ rest = nat_digits (r div 10 ^ d) @ CHR ''.'' # pad_digits d (r mod 10 ^ d) @ rest"
    using assms(1) by (simp add: fmt_f_def r_def Let_def)
  have "atof (fmt_f d x @ rest) =
      real (digits_val 0 (nat_digits (r div 10 ^ d))) +
      real (digits_val 0 (pad_digits d (r mod 10 ^ d))) / 10 ^ length (pad_digits d (r mod 10 ^ d))"
    unfolding t by (rule atof_unsigned_frac) (simp_all add: nat_digits_ne assms(2))
  also have "\<dots> = real (r div 10 ^ d) + real (r mod 10 ^ d) / 10 ^ d"
    by (simp add: digits_val_pad_digits)
  also have "\<dots> = real r / 10 ^ d"
  proof -
    have "real r / real (10 ^ d) = real (r div 10 ^ d) + real (r mod 10 ^ d) / real (10 ^ d)"
      by (rule of_nat_of_nat_div_aux)
    then show ?thesis by simp
  qed
  finally have a: "atof (fmt_f d x @ rest) = real r / 10 ^ d" .
  have "0 \<le> x * 10 ^ d" using assms(1) by simp
  then have "0 \<le> \<lfloor>x * 10 ^ d\<rfloor>" by simp
  then have "0 \<le> round_half_even (x * 10 ^ d)"
    by (simp add: round_half_even_def Let_def)
  then have "real r = real_of_int (round_half_even (x * 10 ^ d))"
    using assms(1) by (simp add: r_def)
  then show ?thesis using a by simp
qed

lemma round_half_even_near: "\<bar>real_of_int (round_half_even y) - y\<bar> \<le> 1 / 2"
proof -
  have "real_of_int \<lfloor>y\<rfloor> \<le> y" "y < real_of_int \<lfloor>y\<rfloor> + 1" by linarith+
  then show ?thesis
    by (auto simp: round_half_even_def Let_def)
qed

lemma round_half_even_ge: "real_of_int L \<le> y \<Longrightarrow> L \<le> round_half_even y"
proof -
  assume "real_of_int L \<le> y"
  then have "L \<le> \<lfloor>y\<rfloor>" by (simp add: le_floor_iff)
  then show ?thesis by (simp add: round_half_even_def Let_def)
qed

lemma round_half_even_le: "y \<le> real_of_int H \<Longrightarrow> round_half_even y \<le> H"
proof -
  assume h: "y \<le> real_of_int H"
  show ?thesis
  proof (cases "y = real_of_int H")
    case True
    then show ?thesis by (simp add: round_half_even_def Let_def)
  next
    case False
    then have "y < real_of_int H" using h by simp
    then have "\<lfloor>y\<rfloor> < H" by (simp add: floor_less_iff)
    then show ?thesis by (simp add: round_half_even_def Let_def)
  qed
qed

text \<open>Formatting with \<open>d\<close> decimals and reading back, inside a clamp range on the grid.\<close>

lemma clamp_round_trip:
  assumes "lo \<le> x" "x \<le> hi" "0 \<le> lo" "lo * 10 ^ d = real_of_int L" "hi * 10 ^ d = real_of_int H"
    "stops_f rest"
  shows "clampf (atof (fmt_f d x @ rest)) lo hi = real_of_int (round_half_even (x * 10 ^ d)) / 10 ^ d"
    and "\<bar>clampf (atof (fmt_f d x @ rest)) lo hi - x\<bar> \<le> 1 / (2 * 10 ^ d)"
proof -
  let ?r = "round_half_even (x * 10 ^ d)"
  have x0: "0 \<le> x" using assms(1,3) by simp
  have a: "atof (fmt_f d x @ rest) = real_of_int ?r / 10 ^ d"
    by (rule atof_fmt_f [OF x0 assms(6)])
  have "real_of_int L \<le> x * 10 ^ d"
    using assms(1) assms(4) [symmetric] by (simp add: mult_right_mono)
  then have l: "L \<le> ?r" by (rule round_half_even_ge)
  have "x * 10 ^ d \<le> real_of_int H"
    using assms(2) assms(5) [symmetric] by (simp add: mult_right_mono)
  then have h: "?r \<le> H" by (rule round_half_even_le)
  have "lo = real_of_int L / 10 ^ d" using assms(4) by (simp add: field_simps)
  then have lo: "lo \<le> real_of_int ?r / 10 ^ d" using l by (simp add: divide_right_mono)
  have "hi = real_of_int H / 10 ^ d" using assms(5) by (simp add: field_simps)
  then have hi: "real_of_int ?r / 10 ^ d \<le> hi" using h by (simp add: divide_right_mono)
  show c: "clampf (atof (fmt_f d x @ rest)) lo hi = real_of_int ?r / 10 ^ d"
    unfolding a using lo hi by (simp add: clampf_def)
  have "\<bar>real_of_int ?r / 10 ^ d - x\<bar> = \<bar>real_of_int ?r - x * 10 ^ d\<bar> / 10 ^ d"
    by (simp add: field_simps abs_divide)
  also have "\<dots> \<le> (1 / 2) / 10 ^ d"
    using round_half_even_near [of "x * 10 ^ d"] by (intro divide_right_mono) simp_all
  finally show "\<bar>clampf (atof (fmt_f d x @ rest)) lo hi - x\<bar> \<le> 1 / (2 * 10 ^ d)"
    unfolding c by simp
qed

lemma quote_not_digit: "isdigit c \<Longrightarrow> c \<noteq> CHR 0x22"
  by (auto simp: isdigit_def)

lemma quote_notin_nat_digits: "CHR 0x22 \<notin> set (nat_digits n)"
  using nat_digits_all quote_not_digit by blast

lemma quote_notin_pad_digits: "CHR 0x22 \<notin> set (pad_digits d n)"
  using digits_pad_digits [of d n] quote_not_digit by (auto simp: digits_def)

lemma quote_notin_fmt_d: "CHR 0x22 \<notin> set (fmt_d x)"
  by (simp add: fmt_d_def quote_notin_nat_digits)

lemma quote_notin_fmt_f: "CHR 0x22 \<notin> set (fmt_f d x)"
  by (simp add: fmt_f_def Let_def quote_notin_nat_digits quote_notin_pad_digits)

lemma strstr_skip_run:
  "CHR 0x22 \<notin> set xs \<Longrightarrow> strstr (xs @ s) (CHR 0x22 # p) = strstr s (CHR 0x22 # p)"
  by (induction xs) auto

lemma strstr_skip_fmt [simp]:
  "strstr (fmt_d x @ s) (CHR 0x22 # p) = strstr s (CHR 0x22 # p)"
  "strstr (fmt_f d y @ s) (CHR 0x22 # p) = strstr s (CHR 0x22 # p)"
  by (simp_all add: strstr_skip_run quote_notin_fmt_d quote_notin_fmt_f)

lemma skip_blanks_fmt [simp]:
  "skip_blanks (fmt_d x @ s) = fmt_d x @ s"
  "skip_blanks (fmt_f d y @ s) = fmt_f d y @ s"
proof -
  have nd: "\<And>n s. skip_blanks (nat_digits n @ s) = nat_digits n @ s"
  proof -
    fix n s
    obtain c cs where e: "nat_digits n = c # cs" using nat_digits_ne [of n] by (cases "nat_digits n") auto
    then have "isdigit c" using nat_digits_all [of c n] by simp
    then have "c \<noteq> CHR '' '' \<and> c \<noteq> CHR 0x09" by (auto simp: isdigit_def)
    then show "skip_blanks (nat_digits n @ s) = nat_digits n @ s" by (simp add: e skip_blanks_def)
  qed
  show "skip_blanks (fmt_d x @ s) = fmt_d x @ s"
    using nd [of "nat x" s] by (simp add: fmt_d_def skip_blanks_def)
  show "skip_blanks (fmt_f d y @ s) = fmt_f d y @ s"
    using nd [of _ "CHR ''.'' # pad_digits d _ @ s"] by (simp add: fmt_f_def Let_def skip_blanks_def)
qed

lemma state_text_bands:
  "json_get_int (state_text v) ''bands'' = Some (bands v)"
proof -
  have "\<exists>r. strstr (state_text v) (json_search ''bands'') =
      Some (json_search ''bands'' @ fmt_d (bands v) @ CHR '','' # r)"
    by (simp add: state_text_def json_search_def dq_def)
  then obtain r where "strstr (state_text v) (json_search ''bands'') =
      Some (json_search ''bands'' @ fmt_d (bands v) @ CHR '','' # r)" by blast
  then show ?thesis
    by (simp add: json_get_int_def atoi_fmt_d stops_def isdigit_def)
qed

lemma float_field_round_trip:
  assumes "strstr text (json_search key) = Some (json_search key @ fmt_f d x @ rest)"
    and "stops_f rest"
    and "lo \<le> x" "x \<le> hi" "0 \<le> lo" "lo * 10 ^ d = real_of_int L" "hi * 10 ^ d = real_of_int H"
  shows "(case json_get_float text key of Some fv \<Rightarrow> clampf fv lo hi | None \<Rightarrow> old) =
           real_of_int (round_half_even (x * 10 ^ d)) / 10 ^ d"
    and "\<bar>(case json_get_float text key of Some fv \<Rightarrow> clampf fv lo hi | None \<Rightarrow> old) - x\<bar>
           \<le> 1 / (2 * 10 ^ d)"
proof -
  have g: "json_get_float text key = Some (atof (fmt_f d x @ rest))"
    by (simp add: json_get_float_def assms(1))
  show "(case json_get_float text key of Some fv \<Rightarrow> clampf fv lo hi | None \<Rightarrow> old) =
           real_of_int (round_half_even (x * 10 ^ d)) / 10 ^ d"
    unfolding g option.case by (rule clamp_round_trip(1) [OF assms(3-7) assms(2)])
  show "\<bar>(case json_get_float text key of Some fv \<Rightarrow> clampf fv lo hi | None \<Rightarrow> old) - x\<bar>
           \<le> 1 / (2 * 10 ^ d)"
    unfolding g option.case by (rule clamp_round_trip(2) [OF assms(3-7) assms(2)])
qed

lemma state_text_finds:
  "\<exists>r. strstr (state_text v) (json_search ''freq_low'') =
      Some (json_search ''freq_low'' @ fmt_f 1 (freq_low v) @ CHR '','' # r)"
  "\<exists>r. strstr (state_text v) (json_search ''freq_high'') =
      Some (json_search ''freq_high'' @ fmt_f 1 (freq_high v) @ CHR '','' # r)"
  "\<exists>r. strstr (state_text v) (json_search ''attack'') =
      Some (json_search ''attack'' @ fmt_f 1 (attack_ms v) @ CHR '','' # r)"
  "\<exists>r. strstr (state_text v) (json_search ''release'') =
      Some (json_search ''release'' @ fmt_f 1 (release_ms v) @ CHR '','' # r)"
  "\<exists>r. strstr (state_text v) (json_search ''mod_gain'') =
      Some (json_search ''mod_gain'' @ fmt_f 2 (mod_gain v) @ CHR '','' # r)"
  "\<exists>r. strstr (state_text v) (json_search ''mix'') =
      Some (json_search ''mix'' @ fmt_f 2 (mix v) @ CHR '','' # r)"
  "strstr (state_text v) (json_search ''carrier_mix'') =
      Some (json_search ''carrier_mix'' @ fmt_f 2 (carrier_mix v) @ ''}'')"
  by (simp_all add: state_text_def json_search_def dq_def del: One_nat_def)

lemma stops_f_sep [simp]: "stops_f (CHR '','' # r)" "stops_f ''}''"
  by (simp_all add: stops_f_def isdigit_def)

lemma clampf_range: "lo \<le> hi \<Longrightarrow> lo \<le> clampf x lo hi \<and> clampf x lo hi \<le> hi"
  by (simp add: clampf_def)

lemma snap_bands_range: "snap_bands x = 8 \<or> snap_bands x = 16 \<or> snap_bands x = 24 \<or> snap_bands x = 32"
  by (simp add: snap_bands_def)

lemma params_ok_cong:
  assumes "bands a = bands b" "freq_low a = freq_low b" "freq_high a = freq_high b"
    "attack_ms a = attack_ms b" "release_ms a = release_ms b" "mod_gain a = mod_gain b"
    "mix a = mix b" "carrier_mix a = carrier_mix b"
  shows "params_ok a = params_ok b"
  by (simp add: params_ok_def assms)

lemma params_ok_create: "params_ok v2_create_instance"
  by (simp add: params_ok_def v2_create_instance_def)

lemma opt_clamp_range:
  "lo \<le> hi \<Longrightarrow> lo \<le> old \<Longrightarrow> old \<le> hi \<Longrightarrow>
   lo \<le> (case y of Some fv \<Rightarrow> clampf fv lo hi | None \<Rightarrow> old) \<and>
   (case y of Some fv \<Rightarrow> clampf fv lo hi | None \<Rightarrow> old) \<le> hi"
  by (cases y) (simp_all add: clampf_def)

lemma params_ok_set_state:
  assumes p: "params_ok v"
  shows "params_ok (set_state_fields v val)"
proof -
  let ?u = "set_state_fields v val"
  have b: "bands ?u = 8 \<or> bands ?u = 16 \<or> bands ?u = 24 \<or> bands ?u = 32"
    using p snap_bands_range [of "clampi (the (json_get_int val ''bands'')) 8 32"]
    by (cases "json_get_int val ''bands''") (simp_all add: params_ok_def)
  have fl: "80 \<le> freq_low ?u \<and> freq_low ?u \<le> 500"
    unfolding set_state_fields_sel using p by (intro opt_clamp_range) (simp_all add: params_ok_def)
  have fh: "2000 \<le> freq_high ?u \<and> freq_high ?u \<le> 12000"
    unfolding set_state_fields_sel using p by (intro opt_clamp_range) (simp_all add: params_ok_def)
  have at: "0.1 \<le> attack_ms ?u \<and> attack_ms ?u \<le> 50"
    unfolding set_state_fields_sel using p by (intro opt_clamp_range) (simp_all add: params_ok_def)
  have re: "5 \<le> release_ms ?u \<and> release_ms ?u \<le> 500"
    unfolding set_state_fields_sel using p by (intro opt_clamp_range) (simp_all add: params_ok_def)
  have mg: "0 \<le> mod_gain ?u \<and> mod_gain ?u \<le> 3"
    unfolding set_state_fields_sel using p by (intro opt_clamp_range) (simp_all add: params_ok_def)
  have mx: "0 \<le> mix ?u \<and> mix ?u \<le> 1"
    unfolding set_state_fields_sel using p by (intro opt_clamp_range) (simp_all add: params_ok_def)
  have cm: "0 \<le> carrier_mix ?u \<and> carrier_mix ?u \<le> 1"
    unfolding set_state_fields_sel using p by (intro opt_clamp_range) (simp_all add: params_ok_def)
  show ?thesis
    unfolding params_ok_def using b fl fh at re mg mx cm by blast
qed

lemma params_ok_branches:
  assumes "params_ok v"
  shows "params_ok (recalc_bands (clear_filters (v\<lparr>bands := snap_bands x\<rparr>)))"
    and "params_ok (recalc_bands (v\<lparr>freq_low := clampf y 80 500\<rparr>))"
    and "params_ok (recalc_bands (v\<lparr>freq_high := clampf y 2000 12000\<rparr>))"
    and "params_ok (recalc_bands (v\<lparr>attack_ms := clampf y 0.1 50\<rparr>))"
    and "params_ok (recalc_bands (v\<lparr>release_ms := clampf y 5 500\<rparr>))"
    and "params_ok (v\<lparr>mod_gain := clampf y 0 3\<rparr>)"
    and "params_ok (v\<lparr>mix := clampf y 0 1\<rparr>)"
    and "params_ok (v\<lparr>carrier_mix := clampf y 0 1\<rparr>)"
proof -
  show "params_ok (recalc_bands (clear_filters (v\<lparr>bands := snap_bands x\<rparr>)))"
    using assms snap_bands_range [of x] by (simp add: params_ok_def)
  show "params_ok (recalc_bands (v\<lparr>freq_low := clampf y 80 500\<rparr>))"
    using assms clampf_range [of 80 500 y] by (simp add: params_ok_def)
  show "params_ok (recalc_bands (v\<lparr>freq_high := clampf y 2000 12000\<rparr>))"
    using assms clampf_range [of 2000 12000 y] by (simp add: params_ok_def)
  show "params_ok (recalc_bands (v\<lparr>attack_ms := clampf y 0.1 50\<rparr>))"
    using assms clampf_range [of "0.1" 50 y] by (simp add: params_ok_def)
  show "params_ok (recalc_bands (v\<lparr>release_ms := clampf y 5 500\<rparr>))"
    using assms clampf_range [of 5 500 y] by (simp add: params_ok_def)
  show "params_ok (v\<lparr>mod_gain := clampf y 0 3\<rparr>)"
    using assms clampf_range [of 0 3 y] by (simp add: params_ok_def)
  show "params_ok (v\<lparr>mix := clampf y 0 1\<rparr>)"
    using assms clampf_range [of 0 1 y] by (simp add: params_ok_def)
  show "params_ok (v\<lparr>carrier_mix := clampf y 0 1\<rparr>)"
    using assms clampf_range [of 0 1 y] by (simp add: params_ok_def)
qed

lemma params_ok_set_param:
  assumes "params_ok v" "v2_set_param (Some v) key val = Some v'"
  shows "params_ok v'"
proof (cases "key = ''state''")
  case True
  then have "v' = recalc_bands (clear_filters (set_state_fields v val))" using assms(2) by simp
  moreover have "params_ok (recalc_bands (clear_filters (set_state_fields v val))) =
      params_ok (set_state_fields v val)"
    by (rule params_ok_cong) simp_all
  ultimately show ?thesis using params_ok_set_state [OF assms(1)] by simp
next
  case False
  note br = params_ok_branches [OF assms(1)]
  show ?thesis
    using assms False br
    by (simp add: Let_def split: if_splits) blast+
qed

lemma process_frame_keeps [simp]:
  "bands (fst (process_frame bl mic i s)) = bands (fst s)"
  "freq_low (fst (process_frame bl mic i s)) = freq_low (fst s)"
  "freq_high (fst (process_frame bl mic i s)) = freq_high (fst s)"
  "attack_ms (fst (process_frame bl mic i s)) = attack_ms (fst s)"
  "release_ms (fst (process_frame bl mic i s)) = release_ms (fst s)"
  "mod_gain (fst (process_frame bl mic i s)) = mod_gain (fst s)"
  "mix (fst (process_frame bl mic i s)) = mix (fst s)"
  "carrier_mix (fst (process_frame bl mic i s)) = carrier_mix (fst s)"
  by (cases s; simp add: process_frame_fst)+

lemma frames_loop_keeps:
  "params_ok (fst (fold (process_frame bl mic) is s)) = params_ok (fst s)"
proof (induction "is" arbitrary: s)
  case Nil
  show ?case by simp
next
  case (Cons i "is")
  have "params_ok (fst (process_frame bl mic i s)) = params_ok (fst s)"
    by (rule params_ok_cong) simp_all
  then show ?case by (simp add: Cons.IH)
qed

lemma params_ok_process_block:
  assumes "params_ok v" "v2_process_block (Some host) (Some v) audio frames = Some (Some v', out)"
  shows "params_ok v'"
proof -
  have "v' = fst (fold (process_frame (read_locals v) (audio_in host)) [0 ..< nat frames] (v, audio))"
    using assms(2) by (auto simp: v2_process_block_def split_beta split: if_splits)
  then show ?thesis using assms(1) by (simp add: frames_loop_keeps)
qed

lemma reachable_params_ok: "reachable v \<Longrightarrow> params_ok v"
proof (induction rule: reachable.induct)
  case created
  show ?case by (rule params_ok_create)
next
  case (param_set v key val v')
  then show ?case using params_ok_set_param by blast
next
  case (block_processed v host audio frames v' out)
  then show ?case using params_ok_process_block by blast
qed

lemma round_half_even_of_int [simp]: "round_half_even (real_of_int k) = k"
  by (simp add: round_half_even_def)

lemma round_half_even_numeral [simp]: "round_half_even (numeral n) = numeral n"
  using round_half_even_of_int [of "numeral n"] by simp

lemma pad_digits_1: "pad_digits 1 n = [digit_char (n mod 10)]"
  by (simp add: One_nat_def)

lemma pad_digits_2: "pad_digits 2 n = [digit_char (n div 10 mod 10), digit_char (n mod 10)]"
  by (simp add: numeral_2_eq_2)

lemma fmt_create:
  "fmt_d 16 = ''16''"
  "fmt_f 1 100 = ''100.0''"
  "fmt_f 1 8000 = ''8000.0''"
  "fmt_f 1 5 = ''5.0''"
  "fmt_f 1 50 = ''50.0''"
  "fmt_f 2 1 = ''1.00''"
  "fmt_f 2 (1 / 10) = ''0.10''"
  by (simp_all add: fmt_d_def fmt_f_def pad_digits_1 pad_digits_2 nat_digits.simps digit_char_def)

lemma state_text_create:
  \<open>state_text v2_create_instance =
     ''{"bands":16,"freq_low":100.0,"freq_high":8000.0,"attack":5.0,"release":50.0,'' @
     ''"mod_gain":1.00,"mix":1.00,"carrier_mix":0.10}''\<close>
  by (simp add: state_text_def v2_create_instance_def calloc_instance_def dq_def fmt_create del: One_nat_def)

lemma get_param_state:
  "length (state_text v) < buf_len \<Longrightarrow>
   v2_get_param (Some v) ''state'' buf buf_len = (int (length (state_text v)), state_text v)"
  by (simp add: snprintf_def)



end
